theory Spec2Isabelle
  imports Complex_Main "HOL-Library.AList" "HOL-Library.Sublist"
begin

section \<open>The database as the module sees it\<close>

text \<open>
  \<^verbatim>\<open>plexpy/database.py\<close> talks to SQLite through Python's \<^verbatim>\<open>sqlite3\<close> module. The
  engine is not part of the module, so the statements the module issues are given a
  semantics here, over a small relational state. Every table has the column
  \<^verbatim>\<open>id INTEGER PRIMARY KEY\<close> (the module's own statements name it: \<^verbatim>\<open>SELECT id\<close>,
  \<^verbatim>\<open>MIN(id)\<close>, \<^verbatim>\<open>WHERE id IN\<close>), optionally \<^verbatim>\<open>AUTOINCREMENT\<close>, further columns, and
  \<^verbatim>\<open>UNIQUE\<close> constraints. Column defaults, type affinity and the 64-bit range of row ids
  are not modelled.
\<close>

datatype sqlval = SNull | SInt int | SText string

type_synonym row = "int \<times> sqlval list"

record table =
  autoinc :: bool
  cols :: "string list"
  uniques :: "string list list"
  rows :: "row list"

record database =
  tables :: "(string \<times> table) list"
  sqlite_sequence :: "(string \<times> int) list"
  integrity :: "string list"

text \<open>Python exceptions that can travel through the module. \<open>DatabaseError\<close> stands for
  \<^verbatim>\<open>sqlite3.DatabaseError\<close> and its subclasses other than the two named ones; the string
  list is the exception's \<^verbatim>\<open>args\<close>.\<close>

datatype exn =
    OperationalError "string list"
  | IntegrityError "string list"
  | DatabaseError "string list"
  | TypeError
  | AttributeError
  | KeyError
  | OSError

type_synonym pyrow = "(string \<times> sqlval) list"

type_synonym cursor = "pyrow list"

subsection \<open>Rows, columns, constraints\<close>

definition scan :: "table \<Rightarrow> row list" where
  "scan t = sort_key fst (rows t)"

definition has_col :: "table \<Rightarrow> string \<Rightarrow> bool" where
  "has_col t c = (c = ''id'' \<or> c \<in> set (cols t))"

definition cell :: "table \<Rightarrow> row \<Rightarrow> string \<Rightarrow> sqlval" where
  "cell t r c =
     (if c = ''id'' then SInt (fst r)
      else (case map_of (zip (cols t) (snd r)) c of Some v \<Rightarrow> v | None \<Rightarrow> SNull))"

definition sql_eq :: "sqlval \<Rightarrow> sqlval \<Rightarrow> bool" where
  "sql_eq a b = (a \<noteq> SNull \<and> b \<noteq> SNull \<and> a = b)"

definition key_conflict :: "table \<Rightarrow> row \<Rightarrow> row \<Rightarrow> string list \<Rightarrow> bool" where
  "key_conflict t r r' U = (\<forall>c\<in>set U. sql_eq (cell t r c) (cell t r' c))"

definition conflicts :: "table \<Rightarrow> row \<Rightarrow> row \<Rightarrow> bool" where
  "conflicts t r r' = (fst r = fst r' \<or> (\<exists>U\<in>set (uniques t). key_conflict t r r' U))"

fun no_conflicts :: "table \<Rightarrow> row list \<Rightarrow> bool" where
  "no_conflicts t [] = True"
| "no_conflicts t (r # rs) = ((\<forall>r'\<in>set rs. \<not> conflicts t r r') \<and> no_conflicts t rs)"

definition next_rowid :: "table \<Rightarrow> int option \<Rightarrow> int" where
  "next_rowid t seq =
     (if autoinc t
      then fold max (map fst (rows t)) (case seq of None \<Rightarrow> 0 | Some s \<Rightarrow> s) + 1
      else (case map fst (rows t) of [] \<Rightarrow> 1 | i # is \<Rightarrow> fold max is i + 1))"

definition no_such_table :: "string \<Rightarrow> exn" where
  "no_such_table n = OperationalError [''no such table: '' @ n]"

definition no_such_column :: "string \<Rightarrow> exn" where
  "no_such_column c = OperationalError [''no such column: '' @ c]"

definition syntax_error :: exn where
  "syntax_error = OperationalError [''syntax error'']"

definition constraint_failed :: "string \<Rightarrow> exn" where
  "constraint_failed n = IntegrityError [''UNIQUE constraint failed: '' @ n]"

definition put_table :: "string \<Rightarrow> table \<Rightarrow> database \<Rightarrow> database" where
  "put_table n t db = db\<lparr>tables := AList.update n t (tables db)\<rparr>"

subsection \<open>Inserting\<close>

datatype insert_outcome = Inserted database | Conflict | Rejected exn

text \<open>One row, given as column/value pairs; where a column is named twice the first
  value counts. A row id that is not supplied is chosen by the engine: for an
  \<^verbatim>\<open>AUTOINCREMENT\<close> table one more than the larger of the recorded sequence and the
  largest id present, otherwise one more than the largest id present.\<close>

definition insert_values :: "string \<Rightarrow> pyrow \<Rightarrow> database \<Rightarrow> insert_outcome" where
  "insert_values n asg db =
     (case map_of (tables db) n of
        None \<Rightarrow> Rejected (no_such_table n)
      | Some t \<Rightarrow>
         (case filter (\<lambda>c. \<not> has_col t c) (map fst asg) of
            c # _ \<Rightarrow> Rejected (OperationalError [''table '' @ n @ '' has no column named '' @ c])
          | [] \<Rightarrow>
             (case map_of asg ''id'' of
                Some (SText s) \<Rightarrow> Rejected (IntegrityError [''datatype mismatch''])
              | v \<Rightarrow>
                 (let i = (case v of Some (SInt j) \<Rightarrow> j
                                   | _ \<Rightarrow> next_rowid t (map_of (sqlite_sequence db) n));
                      r = (i, map (\<lambda>c. case map_of asg c of Some x \<Rightarrow> x | None \<Rightarrow> SNull) (cols t))
                  in if \<exists>r'\<in>set (rows t). conflicts t r r' then Conflict
                     else Inserted
                       ((put_table n (t\<lparr>rows := rows t @ [r]\<rparr>) db)
                         \<lparr>sqlite_sequence :=
                            (if autoinc t
                             then AList.update n
                                    (max i (case map_of (sqlite_sequence db) n of None \<Rightarrow> 0 | Some s \<Rightarrow> s))
                                    (sqlite_sequence db)
                             else sqlite_sequence db)\<rparr>)))))"

text \<open>Several rows in one statement. With \<open>ign\<close> (\<^verbatim>\<open>INSERT OR IGNORE\<close>) a row that violates a
  constraint is skipped; without it the statement fails. The number counts the rows
  written.\<close>

fun insert_all :: "bool \<Rightarrow> string \<Rightarrow> pyrow list \<Rightarrow> database \<Rightarrow> nat \<Rightarrow> exn + (database \<times> nat)" where
  "insert_all ign n [] db k = Inr (db, k)"
| "insert_all ign n (a # as) db k =
     (case insert_values n a db of
        Inserted db' \<Rightarrow> insert_all ign n as db' (Suc k)
      | Conflict \<Rightarrow> if ign then insert_all ign n as db k else Inl (constraint_failed n)
      | Rejected e \<Rightarrow> Inl e)"

subsection \<open>Updating and deleting\<close>

definition set_cell :: "table \<Rightarrow> string \<Rightarrow> sqlval \<Rightarrow> row \<Rightarrow> row" where
  "set_cell t c v r =
     (if c = ''id'' then (case v of SInt i \<Rightarrow> (i, snd r) | _ \<Rightarrow> r)
      else (fst r, map (\<lambda>(c', x). if c' = c then v else x) (zip (cols t) (snd r))))"

text \<open>Rows chosen by \<open>p\<close> are rewritten by \<open>f\<close>; the statement fails when the table then
  breaks a constraint. The number counts the rows chosen, changed or not.\<close>

definition update_where :: "string \<Rightarrow> table \<Rightarrow> (row \<Rightarrow> bool) \<Rightarrow> (row \<Rightarrow> row) \<Rightarrow> exn + (table \<times> nat)" where
  "update_where n t p f =
     (let rs = map (\<lambda>r. if p r then f r else r) (rows t)
      in if no_conflicts t rs then Inr (t\<lparr>rows := rs\<rparr>, length (filter p (rows t)))
         else Inl (constraint_failed n))"

definition delete_where :: "table \<Rightarrow> (row \<Rightarrow> bool) \<Rightarrow> table \<times> nat" where
  "delete_where t p = (t\<lparr>rows := filter (\<lambda>r. \<not> p r) (rows t)\<rparr>, length (filter p (rows t)))"

text \<open>\<^verbatim>\<open>SELECT MIN(id) FROM t GROUP BY cs\<close>: the smallest id of every group of rows that agree
  on all of \<open>cs\<close> (\<^verbatim>\<open>NULL\<close>s group together).\<close>

definition min_ids :: "table \<Rightarrow> string list \<Rightarrow> int list" where
  "min_ids t cs =
     map fst (filter (\<lambda>r. \<forall>r'\<in>set (rows t). map (cell t r') cs = map (cell t r) cs \<longrightarrow> fst r \<le> fst r')
                     (rows t))"


section \<open>Statements, the connection and the outside world\<close>

text \<open>The module builds its statements as strings. They are kept here as terms: one
  constructor for each statement text of the module, carrying what the module formats
  into the text (table and column names) and what it passes as arguments.\<close>

datatype stmt =
    PRAGMA_setting string
  | BEGIN_IMMEDIATE
  | ATTACH_import_db string
  | DETACH_import_db
  | SELECT_seq_session_history
  | CREATE_temp
  | INSERT_temp_old_ids
  | UPDATE_temp_new_id sqlval
  | SELECT_import_table_names
  | DELETE_FROM string
  | DELETE_sequence string
  | PRAGMA_import_table_info string
  | INSERT_OR_IGNORE_import string "string list"
  | UPDATE_reference_id sqlval
  | DELETE_temp_kept "string list"
  | DELETE_in_temp string
  | DELETE_duplicates string "string list"
  | DROP_temp
  | VACUUM
  | PRAGMA_integrity_check
  | UPDATE_SET_WHERE string pyrow pyrow
  | INSERT_INTO_VALUES string pyrow
  | DELETE_WHERE_id_IN string "sqlval list"
  | SELECT_history_ids_of_user sqlval
  | SELECT_history_ids_of_section sqlval

datatype level = DEBUG | INFO | WARN | ERROR

datatype event =
    Execute stmt
  | Sleep nat
  | Log level string
  | Notify string
  | MakeDirs string
  | CopyFile string string
  | Remove string

record datetime =
  year :: nat
  month :: nat
  day :: nat
  hour :: nat
  minute :: nat
  second :: nat

text \<open>An open connection: what it sees of \<^verbatim>\<open>tautulli.db\<close> (its uncommitted changes
  included), whether a \<^verbatim>\<open>BEGIN\<close> is open, the database attached as \<^verbatim>\<open>import_db\<close>, and
  \<^verbatim>\<open>connection.total_changes\<close>.\<close>

record conn =
  view :: database
  in_transaction :: bool
  import_db :: "database option"
  total_changes :: nat

text \<open>Everything the module reads or changes. \<open>db_file\<close> is the committed content of
  \<^verbatim>\<open>tautulli.db\<close>, \<open>conn\<close> the open connection, \<open>disk\<close> the other database files by
  path. \<open>faults\<close> is what the environment imposes on the coming calls of
  \<^verbatim>\<open>execute\<close>, one entry a call: \<open>Some e\<close> makes the call raise \<open>e\<close> (another process holds
  the lock, the disk fails), \<open>None\<close> lets the statement run. The backup directory is kept
  as \<^verbatim>\<open>os.walk\<close> visits it: its own files and directory names, then the directories
  below it with their files; every file carries its modification time.\<close>

record world =
  python2 :: bool
  backup_days :: int
  backup_dir :: string
  data_dir :: string
  db_file :: database
  conn :: conn
  faults :: "exn option list"
  disk :: "(string \<times> database) list"
  unopenable :: "string list"
  backup_dir_exists :: bool
  backup_files :: "(string \<times> real) list"
  backup_subdirs :: "string list"
  nested_files :: "(string \<times> (string \<times> real) list) list"
  undeletable :: "string list"
  copy_fails :: bool
  stamp :: datetime
  copy_time :: real
  time_now :: real
  notify_queue :: "string list"
  trace :: "event list"

definition emit :: "event \<Rightarrow> world \<Rightarrow> world" where
  "emit ev w = w\<lparr>trace := trace w @ [ev]\<rparr>"

definition logger :: "level \<Rightarrow> string \<Rightarrow> world \<Rightarrow> world" where
  "logger l m w = emit (Log l m) w"

definition changed :: "nat \<Rightarrow> database \<Rightarrow> conn \<Rightarrow> conn" where
  "changed k db cn = cn\<lparr>view := db, total_changes := total_changes cn + k\<rparr>"

definition empty_database :: database where
  "empty_database = \<lparr>tables = [], sqlite_sequence = [], integrity = [''ok'']\<rparr>"

definition lower :: "char \<Rightarrow> char" where
  "lower c = (let n = (of_char c :: nat) in if 65 \<le> n \<and> n \<le> 90 then char_of (n + 32) else c)"

text \<open>\<^verbatim>\<open>name LIKE "sqlite_%"\<close>: the six letters in either case, one more character, then
  anything.\<close>

definition like_sqlite :: "string \<Rightarrow> bool" where
  "like_sqlite n = (7 \<le> length n \<and> map lower (take 6 n) = ''sqlite'')"

definition is_int :: "sqlval \<Rightarrow> bool" where
  "is_int v = (case v of SInt _ \<Rightarrow> True | _ \<Rightarrow> False)"

text \<open>\<^verbatim>\<open>id + ?\<close> and \<^verbatim>\<open>id > ?\<close>; the argument is a value of the \<^verbatim>\<open>seq\<close> column, an
  integer or \<^verbatim>\<open>NULL\<close>.\<close>

definition sql_add :: "sqlval \<Rightarrow> sqlval \<Rightarrow> sqlval" where
  "sql_add a b = (case (a, b) of (SInt x, SInt y) \<Rightarrow> SInt (x + y) | _ \<Rightarrow> SNull)"

definition sql_gt :: "sqlval \<Rightarrow> sqlval \<Rightarrow> bool" where
  "sql_gt a b = (case (a, b) of (SInt x, SInt y) \<Rightarrow> y < x | _ \<Rightarrow> False)"

definition with_table :: "string \<Rightarrow> conn \<Rightarrow> (table \<Rightarrow> exn + (cursor \<times> conn)) \<Rightarrow> exn + (cursor \<times> conn)" where
  "with_table n cn f = (case map_of (tables (view cn)) n of None \<Rightarrow> Inl (no_such_table n) | Some t \<Rightarrow> f t)"

definition with_cols :: "table \<Rightarrow> string list \<Rightarrow> (exn + (cursor \<times> conn)) \<Rightarrow> exn + (cursor \<times> conn)" where
  "with_cols t cs k = (case filter (\<lambda>c. \<not> has_col t c) cs of c # _ \<Rightarrow> Inl (no_such_column c) | [] \<Rightarrow> k)"

definition store :: "string \<Rightarrow> conn \<Rightarrow> exn + (table \<times> nat) \<Rightarrow> exn + (cursor \<times> conn)" where
  "store n cn res =
     (case res of Inl e \<Rightarrow> Inl e | Inr (t, k) \<Rightarrow> Inr ([], changed k (put_table n t (view cn)) cn))"

subsection \<open>What each statement does\<close>

fun sql :: "(string \<times> database) list \<Rightarrow> stmt \<Rightarrow> conn \<Rightarrow> exn + (cursor \<times> conn)" where
  "sql dsk (PRAGMA_setting s) cn = Inr ([], cn)"
| "sql dsk BEGIN_IMMEDIATE cn =
     (if in_transaction cn
      then Inl (OperationalError [''cannot start a transaction within a transaction''])
      else Inr ([], cn\<lparr>in_transaction := True\<rparr>))"
| "sql dsk (ATTACH_import_db p) cn =
     (case import_db cn of
        Some d \<Rightarrow> Inl (OperationalError [''database import_db is already in use''])
      | None \<Rightarrow>
          Inr ([], cn\<lparr>import_db := Some (case map_of dsk p of Some d \<Rightarrow> d | None \<Rightarrow> empty_database)\<rparr>))"
| "sql dsk DETACH_import_db cn =
     (case import_db cn of
        None \<Rightarrow> Inl (OperationalError [''no such database: import_db''])
      | Some d \<Rightarrow> Inr ([], cn\<lparr>import_db := None\<rparr>))"
| "sql dsk SELECT_seq_session_history cn =
     Inr (case map_of (sqlite_sequence (view cn)) ''session_history'' of
            None \<Rightarrow> []
          | Some s \<Rightarrow> [[(''seq'', SInt s)]], cn)"
| "sql dsk CREATE_temp cn =
     Inr ([], if ''temp'' \<in> fst ` set (tables (view cn)) then cn
              else cn\<lparr>view := (view cn)\<lparr>tables := tables (view cn) @
                     [(''temp'', \<lparr>autoinc = False, cols = [''old_id'', ''new_id''],
                                 uniques = [], rows = []\<rparr>)]\<rparr>\<rparr>)"
| "sql dsk INSERT_temp_old_ids cn =
     (case import_db cn of
        None \<Rightarrow> Inl (no_such_table ''import_db.session_history'')
      | Some src \<Rightarrow>
         (case map_of (tables src) ''session_history'' of
            None \<Rightarrow> Inl (no_such_table ''import_db.session_history'')
          | Some ts \<Rightarrow>
             (case insert_all False ''temp'' (map (\<lambda>r. [(''old_id'', SInt (fst r))]) (scan ts)) (view cn) 0 of
                Inl e \<Rightarrow> Inl e
              | Inr (db, k) \<Rightarrow> Inr ([], changed k db cn))))"
| "sql dsk (UPDATE_temp_new_id s) cn =
     with_table ''temp'' cn (\<lambda>t. with_cols t [''new_id'']
       (store ''temp'' cn
          (update_where ''temp'' t (\<lambda>r. True) (\<lambda>r. set_cell t ''new_id'' (sql_add (SInt (fst r)) s) r))))"
| "sql dsk SELECT_import_table_names cn =
     (case import_db cn of
        None \<Rightarrow> Inl (no_such_table ''import_db.sqlite_master'')
      | Some src \<Rightarrow>
          Inr (map (\<lambda>n. [(''name'', SText n)]) (filter (\<lambda>n. \<not> like_sqlite n) (map fst (tables src))), cn))"
| "sql dsk (DELETE_FROM n) cn =
     with_table n cn (\<lambda>t. store n cn (Inr (delete_where t (\<lambda>r. True))))"
| "sql dsk (DELETE_sequence n) cn =
     Inr ([], changed (length (filter (\<lambda>e. fst e = n) (sqlite_sequence (view cn))))
                ((view cn)\<lparr>sqlite_sequence := AList.delete n (sqlite_sequence (view cn))\<rparr>) cn)"
| "sql dsk (PRAGMA_import_table_info n) cn =
     (case import_db cn of
        None \<Rightarrow> Inl (OperationalError [''unknown database import_db''])
      | Some src \<Rightarrow>
         Inr (case map_of (tables src) n of
                None \<Rightarrow> []
              | Some ts \<Rightarrow> [(''name'', SText ''id''), (''pk'', SInt 1)]
                           # map (\<lambda>c. [(''name'', SText c), (''pk'', SInt 0)]) (cols ts), cn))"
| "sql dsk (INSERT_OR_IGNORE_import n cs) cn =
     (if cs = [] then Inl syntax_error
      else with_table n cn (\<lambda>t.
        (case import_db cn of
           None \<Rightarrow> Inl (no_such_table (''import_db.'' @ n))
         | Some src \<Rightarrow>
            (case map_of (tables src) n of
               None \<Rightarrow> Inl (no_such_table (''import_db.'' @ n))
             | Some ts \<Rightarrow>
                (case filter (\<lambda>c. \<not> has_col ts c) cs of
                   c # _ \<Rightarrow> Inl (no_such_column c)
                 | [] \<Rightarrow>
                    (case insert_all True n (map (\<lambda>r. map (\<lambda>c. (c, cell ts r c)) cs) (scan ts)) (view cn) 0 of
                       Inl e \<Rightarrow> Inl e
                     | Inr (db, k) \<Rightarrow> Inr ([], changed k db cn)))))))"
| "sql dsk (UPDATE_reference_id s) cn =
     with_table ''session_history'' cn (\<lambda>th. with_table ''temp'' cn (\<lambda>tt.
       with_cols tt [''new_id'', ''old_id''] (with_cols th [''reference_id'']
         (store ''session_history'' cn
            (update_where ''session_history'' th (\<lambda>r. sql_gt (SInt (fst r)) s)
               (\<lambda>r. set_cell th ''reference_id''
                  (case find (\<lambda>tr. sql_eq (cell tt tr ''old_id'')
                                     (if has_col tt ''reference_id'' then cell tt tr ''reference_id''
                                      else cell th r ''reference_id'')) (scan tt) of
                     None \<Rightarrow> SNull
                   | Some tr \<Rightarrow> cell tt tr ''new_id'') r))))))"
| "sql dsk (DELETE_temp_kept cs) cn =
     (if cs = [] then Inl syntax_error
      else with_table ''temp'' cn (\<lambda>tt. with_table ''session_history'' cn (\<lambda>th.
        with_cols tt [''new_id''] (with_cols th cs
          (store ''temp'' cn
             (Inr (delete_where tt (\<lambda>r. cell tt r ''new_id'' \<in> SInt ` set (min_ids th cs)))))))))"
| "sql dsk (DELETE_in_temp n) cn =
     with_table n cn (\<lambda>t. with_table ''temp'' cn (\<lambda>tt.
       with_cols tt [''new_id'']
         (store n cn
            (Inr (delete_where t (\<lambda>r. SInt (fst r) \<in> (\<lambda>tr. cell tt tr ''new_id'') ` set (rows tt)))))))"
| "sql dsk (DELETE_duplicates n cs) cn =
     (if cs = [] then Inl syntax_error
      else with_table n cn (\<lambda>t. with_cols t cs
        (store n cn (Inr (delete_where t (\<lambda>r. fst r \<notin> set (min_ids t cs)))))))"
| "sql dsk DROP_temp cn =
     with_table ''temp'' cn (\<lambda>t.
       Inr ([], cn\<lparr>view := (view cn)\<lparr>tables := AList.delete ''temp'' (tables (view cn))\<rparr>\<rparr>))"
| "sql dsk VACUUM cn =
     (if in_transaction cn then Inl (OperationalError [''cannot VACUUM from within a transaction''])
      else Inr ([], cn))"
| "sql dsk PRAGMA_integrity_check cn =
     Inr (map (\<lambda>m. [(''integrity_check'', SText m)]) (integrity (view cn)), cn)"
| "sql dsk (UPDATE_SET_WHERE n vals keys) cn =
     (if vals = [] \<or> keys = [] then Inl syntax_error
      else with_table n cn (\<lambda>t. with_cols t (map fst vals @ map fst keys)
        (let p = (\<lambda>r. \<forall>(c, v)\<in>set keys. sql_eq (cell t r c) v)
         in if (\<exists>r\<in>set (rows t). p r) \<and> (\<exists>(c, v)\<in>set vals. c = ''id'' \<and> \<not> is_int v)
            then Inl (IntegrityError [''datatype mismatch''])
            else store n cn (update_where n t p (\<lambda>r. fold (\<lambda>(c, v). set_cell t c v) vals r)))))"
| "sql dsk (INSERT_INTO_VALUES n asg) cn =
     (if asg = [] then Inl syntax_error
      else (case insert_all False n [asg] (view cn) 0 of
              Inl e \<Rightarrow> Inl e
            | Inr (db, k) \<Rightarrow> Inr ([], changed k db cn)))"
| "sql dsk (DELETE_WHERE_id_IN n ids) cn =
     with_table n cn (\<lambda>t. store n cn (Inr (delete_where t (\<lambda>r. SInt (fst r) \<in> set ids))))"
| "sql dsk (SELECT_history_ids_of_user v) cn =
     with_table ''session_history'' cn (\<lambda>th. with_cols th [''user_id'']
       (Inr (map (\<lambda>r. [(''id'', SInt (fst r))])
               (filter (\<lambda>r. sql_eq (cell th r ''user_id'') v) (scan th)), cn)))"
| "sql dsk (SELECT_history_ids_of_section v) cn =
     with_table ''session_history'' cn (\<lambda>th. with_table ''session_history_metadata'' cn (\<lambda>tm.
       with_cols tm [''section_id'']
         (Inr (concat (map (\<lambda>r. map (\<lambda>m. [(''id'', SInt (fst r))])
                               (filter (\<lambda>m. fst m = fst r \<and> sql_eq (cell tm m ''section_id'') v) (scan tm)))
                          (scan th)), cn))))"

subsection \<open>The connection\<close>

text \<open>\<^verbatim>\<open>connection.execute\<close>: the call is recorded and takes the next entry of \<open>faults\<close>.\<close>

definition execute :: "stmt \<Rightarrow> world \<Rightarrow> (exn + cursor) \<times> world" where
  "execute q w =
     (let w1 = w\<lparr>trace := trace w @ [Execute q], faults := tl (faults w)\<rparr>
      in case faults w of
           Some e # fs \<Rightarrow> (Inl e, w1)
         | _ \<Rightarrow> (case sql (disk w) q (conn w) of
                  Inl e \<Rightarrow> (Inl e, w1)
                | Inr (cur, cn) \<Rightarrow> (Inr cur, w1\<lparr>conn := cn\<rparr>)))"

definition commit :: "world \<Rightarrow> world" where
  "commit w = w\<lparr>db_file := view (conn w), conn := (conn w)\<lparr>in_transaction := False\<rparr>\<rparr>"

definition rollback :: "world \<Rightarrow> world" where
  "rollback w = w\<lparr>conn := (conn w)\<lparr>view := db_file w, in_transaction := False\<rparr>\<rparr>"

text \<open>\<^verbatim>\<open>MonitorDatabase.__init__\<close>: a new connection on \<^verbatim>\<open>tautulli.db\<close> (it sees the
  committed content, has nothing attached and has counted no change), then the three
  pragmas. The module never uses an earlier connection again once it has made a new
  one, so the world holds one connection.\<close>

definition then_do :: "(exn + 'a) \<times> world \<Rightarrow> ('a \<Rightarrow> world \<Rightarrow> (exn + 'b) \<times> world) \<Rightarrow> (exn + 'b) \<times> world" where
  "then_do m f = (case m of (Inl e, w) \<Rightarrow> (Inl e, w) | (Inr a, w) \<Rightarrow> f a w)"

definition MonitorDatabase :: "world \<Rightarrow> (exn + unit) \<times> world" where
  "MonitorDatabase w =
     then_do (execute (PRAGMA_setting ''synchronous'')
                (w\<lparr>conn := \<lparr>view = db_file w, in_transaction = False, import_db = None,
                            total_changes = 0\<rparr>\<rparr>))
       (\<lambda>c1. \<lambda>w1. then_do (execute (PRAGMA_setting ''journal_mode'') w1)
       (\<lambda>c2. \<lambda>w2. then_do (execute (PRAGMA_setting ''cache_size'') w2)
       (\<lambda>c3. \<lambda>w3. (Inr (), w3))))"

section \<open>MonitorDatabase.action\<close>

text \<open>
  The loop of \<^verbatim>\<open>action\<close>, with the local \<^verbatim>\<open>attempts\<close> as an argument. The \<^verbatim>\<open>with\<close>
  block on the connection commits when \<^verbatim>\<open>execute\<close> returned and rolls back when it
  raised. The handler of \<^verbatim>\<open>OperationalError\<close> tests \<^verbatim>\<open>"..." in e\<close> on the exception
  object: under Python 2 an exception is indexable and the test is membership in its
  \<^verbatim>\<open>args\<close>; under Python 3 the test itself raises \<^verbatim>\<open>TypeError\<close>. The module runs on both
  (\<^verbatim>\<open>plexpy.PYTHON2\<close>). After the loop the function returns \<^verbatim>\<open>sql_result\<close>, which is
  still \<^verbatim>\<open>None\<close> when no attempt succeeded.
\<close>

function action_loop :: "stmt \<Rightarrow> nat \<Rightarrow> world \<Rightarrow> (exn + cursor option) \<times> world" where
  "action_loop q attempts w =
     (if attempts < 5 then
        (case execute q w of
           (Inr cur, w1) \<Rightarrow> (Inr (Some cur), commit w1)
         | (Inl e, w1) \<Rightarrow>
            (let w2 = rollback w1 in
             case e of
               OperationalError args \<Rightarrow>
                 (if python2 w2 then
                    (if ''unable to open database file'' \<in> set args \<or> ''database is locked'' \<in> set args
                     then action_loop q (attempts + 1)
                            (emit (Sleep 1) (logger WARN ''Tautulli Database :: Database Error: %s'' w2))
                     else (Inl e, logger ERROR ''Tautulli Database :: Database error: %s'' w2))
                  else (Inl TypeError, w2))
             | IntegrityError args \<Rightarrow>
                 (Inl e, logger ERROR ''Tautulli Database :: Fatal Error executing %s :: %s'' w2)
             | DatabaseError args \<Rightarrow>
                 (Inl e, logger ERROR ''Tautulli Database :: Fatal Error executing %s :: %s'' w2)
             | _ \<Rightarrow> (Inl e, w2)))
      else (Inr None, w))"
  by pat_completeness auto
termination
  by (relation "measure (\<lambda>(q, attempts, w). 5 - attempts)") auto

declare action_loop.simps [simp del]

definition action :: "stmt option \<Rightarrow> world \<Rightarrow> (exn + cursor option) \<times> world" where
  "action query w = (case query of None \<Rightarrow> (Inr None, w) | Some q \<Rightarrow> action_loop q 0 w)"

text \<open>\<^verbatim>\<open>select\<close> and \<^verbatim>\<open>select_single\<close> call \<^verbatim>\<open>fetchall\<close> and \<^verbatim>\<open>fetchone\<close> on what \<^verbatim>\<open>action\<close>
  returned; on \<^verbatim>\<open>None\<close> that is an \<^verbatim>\<open>AttributeError\<close>.\<close>

definition select :: "stmt \<Rightarrow> world \<Rightarrow> (exn + pyrow list) \<times> world" where
  "select q w =
     then_do (action (Some q) w)
       (\<lambda>res. \<lambda>w1. case res of None \<Rightarrow> (Inl AttributeError, w1) | Some cur \<Rightarrow> (Inr cur, w1))"

definition select_single :: "stmt \<Rightarrow> world \<Rightarrow> (exn + pyrow) \<times> world" where
  "select_single q w =
     then_do (action (Some q) w)
       (\<lambda>res. \<lambda>w1. case res of
                    None \<Rightarrow> (Inl AttributeError, w1)
                  | Some [] \<Rightarrow> (Inr [], w1)
                  | Some (r # rs) \<Rightarrow> (Inr r, w1))"

section \<open>MonitorDatabase.upsert\<close>

definition upsert :: "string \<Rightarrow> pyrow \<Rightarrow> pyrow \<Rightarrow> world \<Rightarrow> (exn + string) \<times> world" where
  "upsert table_name value_dict key_dict w =
     (let changes_before = total_changes (conn w);
          update_query = UPDATE_SET_WHERE table_name value_dict key_dict
      in then_do (action (Some update_query) w)
           (\<lambda>r1. \<lambda>w1.
              if total_changes (conn w1) = changes_before then
                (let insert_query = INSERT_INTO_VALUES table_name (value_dict @ key_dict)
                 in case action (Some insert_query) w1 of
                      (Inl (IntegrityError a), w2) \<Rightarrow>
                        (Inr ''insert'', logger INFO ''Tautulli Database :: Queries failed: %s and %s'' w2)
                    | (Inl e, w2) \<Rightarrow> (Inl e, w2)
                    | (Inr r2, w2) \<Rightarrow> (Inr ''insert'', w2))
              else (Inr ''update'', w1)))"


section \<open>Deleting history\<close>


definition digit_char :: "nat \<Rightarrow> char" where
  "digit_char d = char_of (48 + d)"

fun digits :: "nat \<Rightarrow> string" where
  "digits n = (if n < 10 then [digit_char n] else digits (n div 10) @ [digit_char (n mod 10)])"

declare digits.simps [simp del]


definition is_digit :: "char \<Rightarrow> bool" where
  "is_digit c = (48 \<le> (of_char c :: nat) \<and> (of_char c :: nat) \<le> 57)"









section \<open>make_backup\<close>

definition integrity_check :: "world \<Rightarrow> (exn + pyrow) \<times> world" where
  "integrity_check w = then_do (MonitorDatabase w) (\<lambda>u. \<lambda>w1. select_single PRAGMA_integrity_check w1)"

text \<open>\<^verbatim>\<open>arrow.now().format('YYYYMMDDHHmmss')\<close>: every token is the number in decimal, padded
  with zeros to four digits for the year and to two for the others.\<close>

definition pad :: "nat \<Rightarrow> nat \<Rightarrow> string" where
  "pad k n = replicate (k - length (digits n)) (CHR ''0'') @ digits n"

definition format_stamp :: "datetime \<Rightarrow> string" where
  "format_stamp t =
     pad 4 (year t) @ pad 2 (month t) @ pad 2 (day t) @ pad 2 (hour t) @ pad 2 (minute t) @ pad 2 (second t)"

definition backup_file_name :: "bool \<Rightarrow> datetime \<Rightarrow> string \<Rightarrow> string" where
  "backup_file_name scheduler t corrupt =
     (if scheduler then ''tautulli.backup-'' @ format_stamp t @ corrupt @ ''.sched.db''
      else ''tautulli.backup-'' @ format_stamp t @ corrupt @ ''.db'')"

definition path_join :: "string \<Rightarrow> string \<Rightarrow> string" where
  "path_join a b =
     (if b \<noteq> [] \<and> hd b = CHR ''/'' then b
      else if a = [] \<or> last a = CHR ''/'' then a @ b
      else a @ ''/'' @ b)"

definition db_filename :: "world \<Rightarrow> string" where
  "db_filename w = path_join (data_dir w) ''tautulli.db''"

definition makedirs :: "world \<Rightarrow> world" where
  "makedirs w =
     emit (MakeDirs (backup_dir w))
       (w\<lparr>backup_dir_exists := True, backup_files := [], backup_subdirs := [], nested_files := []\<rparr>)"

text \<open>\<^verbatim>\<open>shutil.copyfile\<close> into the backup directory: the file \<open>name\<close> is created or replaced
  there, or the copy raises.\<close>

definition copyfile :: "string \<Rightarrow> string \<Rightarrow> string \<Rightarrow> world \<Rightarrow> (exn + unit) \<times> world" where
  "copyfile src name dst w =
     (if copy_fails w \<or> name \<in> set (backup_subdirs w) then (Inl OSError, w)
      else (Inr (), emit (CopyFile src dst)
                      (w\<lparr>backup_files := AList.update name (copy_time w) (backup_files w)\<rparr>)))"

definition listdir :: "world \<Rightarrow> string list" where
  "listdir w = map fst (backup_files w) @ backup_subdirs w"

text \<open>The inner loops of the sweep over the files of one directory \<open>root_dir\<close>: for a file
  whose name ends in \<^verbatim>\<open>.sched.db\<close> and whose modification time is below the cutoff
  \<^verbatim>\<open>os.remove\<close> is called (the event \<open>Remove\<close>); when it raises \<^verbatim>\<open>OSError\<close> the file stays,
  the failure is logged and the loop goes on.\<close>

fun remove_old :: "real \<Rightarrow> string \<Rightarrow> (string \<times> real) list \<Rightarrow> world \<Rightarrow> (string \<times> real) list \<times> world" where
  "remove_old cutoff root_dir [] w = ([], w)"
| "remove_old cutoff root_dir ((f, m) # fs) w =
     (if suffix ''.sched.db'' f \<and> m < cutoff then
        (if path_join root_dir f \<in> set (undeletable w)
         then (case remove_old cutoff root_dir fs
                      (logger ERROR ''Tautulli Database :: Failed to delete %s from the backup folder: %s''
                         (emit (Remove (path_join root_dir f)) w)) of
                 (fs', w') \<Rightarrow> ((f, m) # fs', w'))
         else remove_old cutoff root_dir fs (emit (Remove (path_join root_dir f)) w))
      else (case remove_old cutoff root_dir fs w of (fs', w') \<Rightarrow> ((f, m) # fs', w')))"

fun sweep_nested ::
  "real \<Rightarrow> (string \<times> (string \<times> real) list) list \<Rightarrow> world \<Rightarrow> (string \<times> (string \<times> real) list) list \<times> world" where
  "sweep_nested cutoff [] w = ([], w)"
| "sweep_nested cutoff ((root_dir, files) # ds) w =
     (case remove_old cutoff root_dir files w of
        (files', w1) \<Rightarrow>
          (case sweep_nested cutoff ds w1 of (ds', w2) \<Rightarrow> ((root_dir, files') # ds', w2)))"

text \<open>\<^verbatim>\<open>os.walk(backup_folder)\<close>: the folder itself first, then the directories below it.\<close>

definition sweep :: "real \<Rightarrow> world \<Rightarrow> world" where
  "sweep cutoff w =
     (case remove_old cutoff (backup_dir w) (backup_files w) w of
        (files', w1) \<Rightarrow>
          (case sweep_nested cutoff (nested_files w) w1 of
             (ds, w2) \<Rightarrow> w2\<lparr>backup_files := files', nested_files := ds\<rparr>))"

definition notify_corrupt :: "world \<Rightarrow> world" where
  "notify_corrupt w =
     emit (Notify ''on_plexpydbcorrupt'') (w\<lparr>notify_queue := notify_queue w @ [''on_plexpydbcorrupt'']\<rparr>)"

definition make_backup :: "bool \<Rightarrow> bool \<Rightarrow> world \<Rightarrow> (exn + bool) \<times> world" where
  "make_backup cleanup scheduler w =
     then_do (integrity_check w)
       (\<lambda>res. \<lambda>w1.
          case map_of res ''integrity_check'' of
            None \<Rightarrow> (Inl KeyError, w1)
          | Some v \<Rightarrow>
             (let integrity = (v = SText ''ok'');
                  corrupt = (if \<not> integrity then ''.corrupt'' else []);
                  w2 = (if \<not> integrity then notify_corrupt w1 else w1);
                  backup_file = backup_file_name scheduler (stamp w2) corrupt;
                  backup_file_fp = path_join (backup_dir w2) backup_file;
                  w3 = (if \<not> backup_dir_exists w2 then makedirs w2 else w2)
              in then_do (MonitorDatabase w3)
                   (\<lambda>u. \<lambda>w4. then_do (execute BEGIN_IMMEDIATE w4)
                   (\<lambda>c. \<lambda>w5. then_do (copyfile (db_filename w5) backup_file backup_file_fp w5)
                   (\<lambda>u. \<lambda>w6.
                      let w7 = rollback w6;
                          w8 = (if cleanup \<and> integrity
                                then sweep (time_now w7 - real_of_int (backup_days w7) * 86400) w7
                                else w7)
                      in if backup_file \<in> set (listdir w8)
                         then (Inr True, logger DEBUG ''Tautulli Database :: Successfully backed up %s to %s'' w8)
                         else (Inr False, logger ERROR ''Tautulli Database :: Failed to backup %s to %s'' w8))))))"

section \<open>import_tautulli_db\<close>

definition validate_database :: "string option \<Rightarrow> world \<Rightarrow> string \<times> world" where
  "validate_database database w =
     (case database of
        None \<Rightarrow> (''Uncaught exception'', logger ERROR ''Tautulli Database :: Uncaught exception: %s'' w)
      | Some p \<Rightarrow>
          if p \<in> set (unopenable w)
          then (''Invalid database specified'',
                logger ERROR ''Tautulli Database :: Invalid database specified: %s'' w)
          else (''success'', w))"

text \<open>Python's \<^verbatim>\<open>==\<close> between the objects that meet in the table loop: a string equals a
  string with the same characters, a row (a \<^verbatim>\<open>dict\<close>) a row with the same items, and a
  row never equals a string.\<close>

datatype pyobj = PyStr string | PyDict pyrow

definition py_eq :: "pyobj \<Rightarrow> pyobj \<Rightarrow> bool" where
  "py_eq a b =
     (case (a, b) of
        (PyStr x, PyStr y) \<Rightarrow> x = y
      | (PyDict x, PyDict y) \<Rightarrow> set x = set y
      | _ \<Rightarrow> False)"

definition py_format :: "sqlval \<Rightarrow> string" where
  "py_format v =
     (case v of
        SNull \<Rightarrow> ''None''
      | SInt i \<Rightarrow> if i < 0 then ''-'' @ digits (nat (- i)) else digits (nat i)
      | SText s \<Rightarrow> s)"

definition truthy :: "sqlval \<Rightarrow> bool" where
  "truthy v = (case v of SNull \<Rightarrow> False | SInt i \<Rightarrow> i \<noteq> 0 | SText s \<Rightarrow> s \<noteq> [])"

text \<open>\<^verbatim>\<open>[c['name'] for c in columns if not c['pk']]\<close>\<close>

fun import_columns_of :: "pyrow list \<Rightarrow> exn + string list" where
  "import_columns_of [] = Inr []"
| "import_columns_of (c # cs) =
     (case map_of c ''pk'' of
        None \<Rightarrow> Inl KeyError
      | Some pk \<Rightarrow>
         (if \<not> truthy pk then
            (case map_of c ''name'' of
               None \<Rightarrow> Inl KeyError
             | Some n \<Rightarrow> (case import_columns_of cs of Inl e \<Rightarrow> Inl e | Inr ns \<Rightarrow> Inr (py_format n # ns)))
          else import_columns_of cs))"

text \<open>The first block under \<^verbatim>\<open>if method == 'merge'\<close>: the table \<^verbatim>\<open>temp\<close> of old and new
  ids. The argument \<^verbatim>\<open>session_history_seq['seq']\<close> is evaluated when the third call is
  made.\<close>

definition create_reindex :: "pyrow \<Rightarrow> world \<Rightarrow> (exn + unit) \<times> world" where
  "create_reindex session_history_seq w =
     then_do (action (Some CREATE_temp)
                (logger INFO ''Tautulli Database :: Creating temporary database table to re-index grouped session history.'' w))
       (\<lambda>r1. \<lambda>w1. then_do (action (Some INSERT_temp_old_ids) w1)
       (\<lambda>r2. \<lambda>w2.
          case map_of session_history_seq ''seq'' of
            None \<Rightarrow> (Inl KeyError, w2)
          | Some seq \<Rightarrow> then_do (action (Some (UPDATE_temp_new_id seq)) w2) (\<lambda>r3. \<lambda>w3. (Inr (), w3))))"

text \<open>The body of the loop over the rows of \<^verbatim>\<open>tables\<close> for one row that is not skipped:
  the statements for the table \<open>table_name\<close>, returning the list \<^verbatim>\<open>import_columns\<close>.\<close>

definition import_table :: "string \<Rightarrow> string \<Rightarrow> world \<Rightarrow> (exn + string list) \<times> world" where
  "import_table method table_name w =
     then_do
       (if method = ''overwrite''
        then then_do (action (Some (DELETE_FROM table_name))
                        (logger INFO ''Tautulli Database :: Importing database table %s.'' w))
               (\<lambda>r1. \<lambda>w1. then_do (action (Some (DELETE_sequence table_name)) w1)
               (\<lambda>r2. \<lambda>w2. (Inr (), w2)))
        else (Inr (), logger INFO ''Tautulli Database :: Importing database table %s.'' w))
       (\<lambda>u. \<lambda>w2. then_do (select (PRAGMA_import_table_info table_name) w2)
       (\<lambda>columns. \<lambda>w3.
          case import_columns_of columns of
            Inl e \<Rightarrow> (Inl e, w3)
          | Inr import_columns \<Rightarrow>
              then_do (action (Some (INSERT_OR_IGNORE_import table_name import_columns)) w3)
                (\<lambda>r3. \<lambda>w4. (Inr import_columns, w4))))"

text \<open>The loop itself. The accumulator holds \<^verbatim>\<open>session_history_columns\<close> and
  \<^verbatim>\<open>table_columns\<close>. The loop variable \<^verbatim>\<open>table\<close> is the row, \<^verbatim>\<open>table_name\<close> its \<^verbatim>\<open>name\<close>;
  the test that fills \<^verbatim>\<open>session_history_columns\<close> compares \<^verbatim>\<open>table\<close>.\<close>

fun import_tables ::
  "string \<Rightarrow> pyrow list \<Rightarrow> string list \<times> (string \<times> string list) list \<Rightarrow> world \<Rightarrow>
     (exn + string list \<times> (string \<times> string list) list) \<times> world" where
  "import_tables method [] acc w = (Inr acc, w)"
| "import_tables method (table # rest) acc w =
     (case map_of table ''name'' of
        None \<Rightarrow> (Inl KeyError, w)
      | Some name \<Rightarrow>
         (if py_format name = ''sessions''
          then import_tables method rest acc w
          else
            (case import_table method (py_format name) w of
               (Inl e, w1) \<Rightarrow> (Inl e, w1)
             | (Inr import_columns, w1) \<Rightarrow>
                 import_tables method rest
                   (if py_eq (PyDict table) (PyStr ''session_history'')
                    then import_columns else fst acc,
                    AList.update (py_format name) import_columns (snd acc)) w1)))"

text \<open>The loop over \<^verbatim>\<open>table_columns.items()\<close>.\<close>

fun remove_duplicates :: "(string \<times> string list) list \<Rightarrow> world \<Rightarrow> (exn + unit) \<times> world" where
  "remove_duplicates [] w = (Inr (), w)"
| "remove_duplicates ((table, columns) # rest) w =
     (case action
             (Some (if table \<in> {''session_history'', ''session_history_metadata'', ''session_history_media_info''}
                    then DELETE_in_temp table
                    else DELETE_duplicates table columns))
             (logger INFO ''Tautulli Database :: Removing duplicate rows from database table %s.'' w) of
        (Inl e, w1) \<Rightarrow> (Inl e, w1)
      | (Inr r, w1) \<Rightarrow> remove_duplicates rest w1)"

text \<open>The second block under \<^verbatim>\<open>if method == 'merge'\<close>.\<close>

definition reindex_and_deduplicate ::
  "pyrow \<Rightarrow> string list \<Rightarrow> (string \<times> string list) list \<Rightarrow> world \<Rightarrow> (exn + unit) \<times> world" where
  "reindex_and_deduplicate session_history_seq session_history_columns table_columns w =
     (case map_of session_history_seq ''seq'' of
        None \<Rightarrow> (Inl KeyError, logger INFO ''Tautulli Database :: Re-indexing grouped session history.'' w)
      | Some seq \<Rightarrow>
          then_do (action (Some (UPDATE_reference_id seq))
                     (logger INFO ''Tautulli Database :: Re-indexing grouped session history.'' w))
            (\<lambda>r1. \<lambda>w1. then_do
               (if session_history_columns \<noteq> []
                then then_do
                       (action (Some (DELETE_temp_kept
                                        (filter (\<lambda>c. c \<noteq> ''reference_id'') session_history_columns))) w1)
                       (\<lambda>r2. \<lambda>w2. (Inr (), w2))
                else (Inr (), w1))
            (\<lambda>u. \<lambda>w2. then_do (remove_duplicates table_columns w2)
            (\<lambda>u. \<lambda>w3. then_do
               (action (Some DROP_temp)
                  (logger INFO ''Tautulli Database :: Deleting temporary database table.'' w3))
            (\<lambda>r3. \<lambda>w4. (Inr (), w4))))))"

text \<open>The function from \<^verbatim>\<open>db = MonitorDatabase()\<close> on.\<close>

definition import_from :: "string \<Rightarrow> string \<Rightarrow> world \<Rightarrow> (exn + bool option) \<times> world" where
  "import_from database method w =
     then_do (MonitorDatabase w)
       (\<lambda>u. \<lambda>w1. then_do (execute BEGIN_IMMEDIATE w1)
       (\<lambda>c1. \<lambda>w2. then_do (execute (ATTACH_import_db database) w2)
       (\<lambda>c2. \<lambda>w3. then_do (select_single SELECT_seq_session_history w3)
       (\<lambda>session_history_seq. \<lambda>w4. then_do
          (if method = ''merge'' then create_reindex session_history_seq w4 else (Inr (), w4))
       (\<lambda>u. \<lambda>w5. then_do (select SELECT_import_table_names w5)
       (\<lambda>tables. \<lambda>w6. then_do (import_tables method tables ([], []) w6)
       (\<lambda>acc. \<lambda>w7. then_do (execute DETACH_import_db w7)
       (\<lambda>c3. \<lambda>w8. then_do
          (if method = ''merge''
           then reindex_and_deduplicate session_history_seq (fst acc) (snd acc) w8
           else (Inr (), w8))
       (\<lambda>u. \<lambda>w9. then_do (action (Some VACUUM) w9)
       (\<lambda>r. \<lambda>w10.
          (Inr None, logger INFO ''Tautulli Database :: Tautulli database import complete.'' w10)))))))))))"

text \<open>The result is \<open>Some False\<close> for the three early returns and \<open>None\<close> when the function
  reaches its end.\<close>

definition import_tautulli_db ::
  "string option \<Rightarrow> string option \<Rightarrow> bool \<Rightarrow> world \<Rightarrow> (exn + bool option) \<times> world" where
  "import_tautulli_db database method backup w =
     (case validate_database database w of
        (db_validate, w1) \<Rightarrow>
          if db_validate \<noteq> ''success''
          then (Inr (Some False),
                logger ERROR ''Tautulli Database :: Failed to import Tautulli database: %s'' w1)
          else if method \<notin> {Some ''merge'', Some ''overwrite''}
          then (Inr (Some False),
                logger ERROR ''Tautulli Database :: Failed to import Tautulli database: invalid import method %s'' w1)
          else
            then_do
              (if backup
               then make_backup False False
                      (logger INFO ''Tautulli Database :: Creating a database backup before importing.'' w1)
               else (Inr True, w1))
              (\<lambda>ok. \<lambda>w2.
                 if \<not> ok
                 then (Inr (Some False),
                       logger ERROR ''Tautulli Database :: Failed to import Tautulli database: failed to create database backup'' w2)
                 else import_from (the database) (the method)
                        (logger INFO ''Tautulli Database :: Importing Tautulli database %s with import method %s...'' w2)))"

section \<open>Notions used in the statements\<close>

text \<open>A fault is transient when it is an \<^verbatim>\<open>OperationalError\<close> that the handler of
  \<^verbatim>\<open>action\<close> takes for lock contention.\<close>

definition transient :: "exn option \<Rightarrow> bool" where
  "transient f =
     (case f of
        Some (OperationalError args) \<Rightarrow>
          ''unable to open database file'' \<in> set args \<or> ''database is locked'' \<in> set args
      | _ \<Rightarrow> False)"

text \<open>What one failed attempt of \<^verbatim>\<open>action\<close> leaves in the trace, and the world after it.\<close>

definition retry_events :: "stmt \<Rightarrow> event list" where
  "retry_events q = [Execute q, Log WARN ''Tautulli Database :: Database Error: %s'', Sleep 1]"

definition failed_attempt :: "stmt \<Rightarrow> world \<Rightarrow> world" where
  "failed_attempt q w =
     emit (Sleep 1) (logger WARN ''Tautulli Database :: Database Error: %s''
       (rollback (w\<lparr>trace := trace w @ [Execute q], faults := tl (faults w)\<rparr>)))"

text \<open>How \<^verbatim>\<open>action\<close> leaves when an attempt raised \<open>e\<close> and the handlers do not retry.\<close>

definition raised :: "exn \<Rightarrow> world \<Rightarrow> (exn + cursor option) \<times> world" where
  "raised e w =
     (case e of
        OperationalError args \<Rightarrow>
          if python2 w then (Inl e, logger ERROR ''Tautulli Database :: Database error: %s'' (rollback w))
          else (Inl TypeError, rollback w)
      | IntegrityError args \<Rightarrow>
          (Inl e, logger ERROR ''Tautulli Database :: Fatal Error executing %s :: %s'' (rollback w))
      | DatabaseError args \<Rightarrow>
          (Inl e, logger ERROR ''Tautulli Database :: Fatal Error executing %s :: %s'' (rollback w))
      | _ \<Rightarrow> (Inl e, rollback w))"

text \<open>The events of a trace that reach beyond the database: the notifications, the
  directories made, the files copied and the calls of \<^verbatim>\<open>os.remove\<close>, in order.\<close>

definition effects :: "event list \<Rightarrow> event list" where
  "effects evs =
     filter (\<lambda>ev. case ev of Execute q \<Rightarrow> False | Sleep k \<Rightarrow> False | Log l m \<Rightarrow> False | _ \<Rightarrow> True) evs"

text \<open>\<open>db_step w w'\<close>: from \<open>w\<close> to \<open>w'\<close> only the database, the connection, the pending
  faults and the trace may differ, and nothing happened beyond the database.\<close>

definition db_step :: "world \<Rightarrow> world \<Rightarrow> bool" where
  "db_step w w' =
     (python2 w' = python2 w \<and> backup_days w' = backup_days w \<and> backup_dir w' = backup_dir w \<and>
      data_dir w' = data_dir w \<and> disk w' = disk w \<and> unopenable w' = unopenable w \<and>
      backup_dir_exists w' = backup_dir_exists w \<and> backup_files w' = backup_files w \<and>
      backup_subdirs w' = backup_subdirs w \<and> nested_files w' = nested_files w \<and>
      undeletable w' = undeletable w \<and> copy_fails w' = copy_fails w \<and> stamp w' = stamp w \<and>
      copy_time w' = copy_time w \<and> time_now w' = time_now w \<and> notify_queue w' = notify_queue w \<and>
      effects (trace w') = effects (trace w))"

text \<open>\<open>swept cutoff d w (f, m)\<close>: the sweep removes the file \<open>f\<close> of the directory \<open>d\<close>, last
  modified at \<open>m\<close>: it is a scheduled backup older than the cutoff, and \<^verbatim>\<open>os.remove\<close> does
  not fail on it. \<open>old_backup\<close> is the condition without the last part.\<close>

definition old_backup :: "real \<Rightarrow> string \<times> real \<Rightarrow> bool" where
  "old_backup cutoff fm = (suffix ''.sched.db'' (fst fm) \<and> snd fm < cutoff)"

definition swept :: "real \<Rightarrow> string \<Rightarrow> world \<Rightarrow> string \<times> real \<Rightarrow> bool" where
  "swept cutoff d w fm = (old_backup cutoff fm \<and> path_join d (fst fm) \<notin> set (undeletable w))"

text \<open>The events one call of \<^verbatim>\<open>action\<close> with the statement \<open>q\<close> can leave.\<close>

definition attempt_event :: "stmt \<Rightarrow> event \<Rightarrow> bool" where
  "attempt_event q ev = (ev = Execute q \<or> ev = Sleep 1 \<or> (\<exists>l m. ev = Log l m))"
text \<open>The paths of the old scheduled backups among the files \<open>fs\<close> of the directory \<open>d\<close>.\<close>

definition old_paths :: "real \<Rightarrow> string \<Rightarrow> (string \<times> real) list \<Rightarrow> string list" where
  "old_paths cutoff d fs = map (\<lambda>fm. path_join d (fst fm)) (filter (old_backup cutoff) fs)"

text \<open>For a call of \<^verbatim>\<open>make_backup\<close> whose integrity check gave the value \<open>v\<close>: the name of
  the file it writes, the backup directory as it is right after the copy, and the cutoff
  of the sweep, \<^verbatim>\<open>now - BACKUP_DAYS * 86400\<close>.\<close>

definition produced_name :: "bool \<Rightarrow> world \<Rightarrow> sqlval \<Rightarrow> string" where
  "produced_name scheduler w v =
     backup_file_name scheduler (stamp w) (if v = SText ''ok'' then [] else ''.corrupt'')"

definition files_after_copy :: "bool \<Rightarrow> world \<Rightarrow> sqlval \<Rightarrow> (string \<times> real) list" where
  "files_after_copy scheduler w v =
     AList.update (produced_name scheduler w v) (copy_time w)
       (if backup_dir_exists w then backup_files w else [])"

definition nested_after_copy :: "world \<Rightarrow> (string \<times> (string \<times> real) list) list" where
  "nested_after_copy w = (if backup_dir_exists w then nested_files w else [])"

definition sweep_cutoff :: "world \<Rightarrow> real" where
  "sweep_cutoff w = time_now w - real_of_int (backup_days w) * 86400"

text \<open>What such a call does beyond the database before it sweeps: the notification when
  the check failed, the directory when it was missing, and the copy.\<close>

definition effects_before_sweep :: "bool \<Rightarrow> world \<Rightarrow> sqlval \<Rightarrow> event list" where
  "effects_before_sweep scheduler w v =
     (if v = SText ''ok'' then [] else [Notify ''on_plexpydbcorrupt'']) @
     (if backup_dir_exists w then [] else [MakeDirs (backup_dir w)]) @
     [CopyFile (db_filename w) (path_join (backup_dir w) (produced_name scheduler w v))]"

text \<open>\<open>settled w\<close>: nothing is pending on the connection; it sees exactly what the file
  \<^verbatim>\<open>tautulli.db\<close> holds, so a rollback would undo nothing.\<close>

definition settled :: "world \<Rightarrow> bool" where
  "settled w = (view (conn w) = db_file w)"

text \<open>\<open>copies ts rs\<close>: the rows \<open>rs\<close> of the table \<open>ts\<close>, read column by column and numbered
  from 1 in the order given.\<close>

definition copies :: "table \<Rightarrow> row list \<Rightarrow> row list" where
  "copies ts rs = map (\<lambda>(i, r). (int i, map (cell ts r) (cols ts))) (enumerate 1 rs)"

section \<open>Concrete situations\<close>

definition blank_world :: world where
  "blank_world =
     \<lparr>python2 = True, backup_days = 7, backup_dir = ''/backups'', data_dir = ''/data'',
      db_file = empty_database,
      conn = \<lparr>view = empty_database, in_transaction = False, import_db = None, total_changes = 0\<rparr>,
      faults = [], disk = [], unopenable = [],
      backup_dir_exists = True, backup_files = [], backup_subdirs = [], nested_files = [],
      undeletable = [], copy_fails = False,
      stamp = \<lparr>year = 2020, month = 3, day = 9, hour = 14, minute = 5, second = 7\<rparr>,
      copy_time = 1000000, time_now = 1000001, notify_queue = [], trace = []\<rparr>"

text \<open>Another process holds the lock for as long as anyone tries.\<close>

definition locked_world :: world where
  "locked_world = blank_world\<lparr>faults := replicate 5 (Some (OperationalError [''database is locked'']))\<rparr>"

text \<open>A table of users, one row, with \<^verbatim>\<open>user_id\<close> and \<^verbatim>\<open>name\<close> each unique.\<close>

definition users_table :: table where
  "users_table =
     \<lparr>autoinc = True, cols = [''user_id'', ''name''], uniques = [[''user_id''], [''name'']],
      rows = [(1, [SInt 7, SText ''bob''])]\<rparr>"

definition users_db :: database where
  "users_db = \<lparr>tables = [(''users'', users_table)], sqlite_sequence = [(''users'', 1)], integrity = [''ok'']\<rparr>"

definition users_world :: world where
  "users_world = blank_world\<lparr>db_file := users_db, conn := (conn blank_world)\<lparr>view := users_db\<rparr>\<rparr>"

text \<open>A history of three sessions with its two side tables.\<close>

definition history_table :: "row list \<Rightarrow> table" where
  "history_table rs =
     \<lparr>autoinc = True, cols = [''reference_id'', ''user_id'', ''title''], uniques = [], rows = rs\<rparr>"

definition metadata_table :: "row list \<Rightarrow> table" where
  "metadata_table rs = \<lparr>autoinc = False, cols = [''section_id'', ''guid''], uniques = [], rows = rs\<rparr>"

definition media_info_table :: "row list \<Rightarrow> table" where
  "media_info_table rs = \<lparr>autoinc = False, cols = [''video_codec''], uniques = [], rows = rs\<rparr>"

definition history_db :: database where
  "history_db =
     \<lparr>tables =
        [(''session_history'',
          history_table [(1, [SInt 1, SInt 7, SText ''a'']), (2, [SInt 2, SInt 8, SText ''b'']),
                         (3, [SInt 3, SInt 7, SText ''c''])]),
         (''session_history_metadata'',
          metadata_table [(1, [SInt 4, SText ''g1'']), (2, [SInt 5, SText ''g2'']), (3, [SInt 5, SText ''g3''])]),
         (''session_history_media_info'',
          media_info_table [(1, [SText ''h264'']), (2, [SText ''hevc'']), (3, [SText ''h264''])])],
      sqlite_sequence = [(''session_history'', 3)], integrity = [''ok'']\<rparr>"

definition history_world :: world where
  "history_world = blank_world\<lparr>db_file := history_db, conn := (conn blank_world)\<lparr>view := history_db\<rparr>\<rparr>"

text \<open>A database whose integrity check reports a fault.\<close>

definition corrupt_world :: world where
  "corrupt_world =
     blank_world\<lparr>db_file := empty_database\<lparr>integrity := [''row 3 missing from index idx'']\<rparr>\<rparr>"

text \<open>A backup directory with an old and a recent scheduled backup, an old manual backup,
  an old scheduled backup that cannot be removed, and an old scheduled backup in a
  directory below. With \<open>time_now = 1000001\<close> and seven days the cutoff is \<open>395201\<close>.\<close>

definition sweep_world :: world where
  "sweep_world =
     blank_world\<lparr>backup_files :=
                   [(''tautulli.backup-19700101000140.sched.db'', 100),
                    (''tautulli.backup-19700112133000.sched.db'', 999000),
                    (''tautulli.backup-19700101000140.db'', 100),
                    (''tautulli.backup-19700101000150.sched.db'', 110)],
                 backup_subdirs := [''older''],
                 nested_files := [(''/backups/older'', [(''tautulli.backup-19700101000050.sched.db'', 50)])],
                 undeletable := [''/backups/tautulli.backup-19700101000150.sched.db'']\<rparr>"

text \<open>A second database with two sessions, the second one grouped with the first
  (\<^verbatim>\<open>reference_id = 1\<close>), stored at \<^verbatim>\<open>/import.db\<close>; the destination is \<open>history_db\<close>, whose
  history has the ids 1 to 3 and the sequence 3.\<close>

definition import_source :: database where
  "import_source =
     \<lparr>tables =
        [(''session_history'',
          history_table [(1, [SInt 1, SInt 9, SText ''x'']), (2, [SInt 1, SInt 9, SText ''y''])]),
         (''session_history_metadata'',
          metadata_table [(1, [SInt 6, SText ''g8'']), (2, [SInt 6, SText ''g9''])]),
         (''session_history_media_info'',
          media_info_table [(1, [SText ''vp9'']), (2, [SText ''av1''])])],
      sqlite_sequence = [(''session_history'', 2)], integrity = [''ok'']\<rparr>"

definition import_world :: world where
  "import_world = history_world\<lparr>disk := [(''/import.db'', import_source)]\<rparr>"



section \<open>Facts about action\<close>

lemma failed_attempt_fields:
  "trace (failed_attempt q w) = trace w @ retry_events q"
  "faults (failed_attempt q w) = tl (faults w)"
  "db_file (failed_attempt q w) = db_file w"
  "view (conn (failed_attempt q w)) = db_file w"
  "python2 (failed_attempt q w) = python2 w"
  by (simp_all add: failed_attempt_def emit_def logger_def rollback_def retry_events_def)

lemma action_loop_transient_step:
  assumes "attempts < 5" "python2 w" "faults w = f # fs" "transient f"
  shows "action_loop q attempts w = action_loop q (attempts + 1) (failed_attempt q w)"
proof -
  obtain args where f: "f = Some (OperationalError args)"
    and t: "''unable to open database file'' \<in> set args \<or> ''database is locked'' \<in> set args"
    using assms(4) by (auto simp: transient_def split: option.splits exn.splits)
  show ?thesis
    apply (subst action_loop.simps)
    using assms(1-3) f t
    by (auto simp: execute_def failed_attempt_def Let_def rollback_def)
qed

lemma not_transient_simps [simp]:
  "\<not> transient (Some (no_such_table n))"
  "\<not> transient (Some (no_such_column c))"
  "\<not> transient (Some syntax_error)"
  "\<not> transient (Some (constraint_failed n))"
  "\<not> transient (Some (IntegrityError a))"
  "\<not> transient (Some (DatabaseError a))"
  "\<not> transient None"
  by (simp_all add: transient_def no_such_table_def no_such_column_def syntax_error_def
        constraint_failed_def)

lemma transient_OperationalError [simp]:
  "transient (Some (OperationalError a)) \<longleftrightarrow>
     ''unable to open database file'' \<in> set a \<or> ''database is locked'' \<in> set a"
  by (simp add: transient_def)

lemma action_loop_unfold:
  "n < 5 \<Longrightarrow> action_loop q n w =
     (case execute q w of
        (Inr cur, w1) \<Rightarrow> (Inr (Some cur), commit w1)
      | (Inl e, w1) \<Rightarrow>
          if python2 w \<and> transient (Some e) then action_loop q (n + 1) (failed_attempt q w)
          else raised e w1)"
  apply (subst action_loop.simps)
  apply (auto simp: execute_def Let_def raised_def failed_attempt_def rollback_def logger_def emit_def
      transient_def split: list.splits option.splits sum.splits prod.splits exn.splits)
  done

lemma action_loop_done: "action_loop q 5 w = (Inr None, w)"
  by (subst action_loop.simps) simp

lemma action_loop_cases:
  assumes "action_loop q n w = (r, w')" "n \<le> 5"
  shows "\<exists>j. n + j \<le> 5 \<and>
           ((n + j = 5 \<and> r = Inr None \<and> w' = (failed_attempt q ^^ j) w) \<or>
            (n + j < 5 \<and>
               (case execute q ((failed_attempt q ^^ j) w) of
                  (Inr cur, w1) \<Rightarrow> r = Inr (Some cur) \<and> w' = commit w1
                | (Inl e, w1) \<Rightarrow> \<not> (python2 w \<and> transient (Some e)) \<and> (r, w') = raised e w1)))"
  using assms
proof (induction "5 - n" arbitrary: n w)
  case 0
  then have "n = 5" by simp
  with 0 show ?case by (intro exI [of _ 0]) (simp add: action_loop_done)
next
  case (Suc k)
  then have n: "n < 5" by simp
  obtain x w1 where ex: "execute q w = (x, w1)" by (cases "execute q w")
  show ?case
  proof (cases x)
    case (Inr cur)
    with Suc.prems ex n show ?thesis
      by (intro exI [of _ 0]) (simp add: action_loop_unfold)
  next
    case (Inl e)
    show ?thesis
    proof (cases "python2 w \<and> transient (Some e)")
      case False
      with Suc.prems ex n Inl show ?thesis
        by (intro exI [of _ 0]) (auto simp add: action_loop_unfold)
    next
      case True
      have py: "python2 (failed_attempt q w) = python2 w"
        by (simp add: failed_attempt_fields)
      from True Suc.prems ex n Inl
      have rec: "action_loop q (n + 1) (failed_attempt q w) = (r, w')"
        by (simp add: action_loop_unfold)
      have k: "k = 5 - (n + 1)" using Suc.hyps(2) by simp
      have le: "n + 1 \<le> 5" using n by simp
      from Suc.hyps(1) [OF k rec le]
      obtain j where j: "n + 1 + j \<le> 5 \<and>
        ((n + 1 + j = 5 \<and> r = Inr None \<and> w' = (failed_attempt q ^^ j) (failed_attempt q w)) \<or>
            (n + 1 + j < 5 \<and>
               (case execute q ((failed_attempt q ^^ j) (failed_attempt q w)) of
                  (Inr cur, w1) \<Rightarrow> r = Inr (Some cur) \<and> w' = commit w1
                | (Inl e, w1) \<Rightarrow> \<not> (python2 (failed_attempt q w) \<and> transient (Some e)) \<and> (r, w') = raised e w1)))"
        ..
      show ?thesis
        using j py by (intro exI [of _ "Suc j"]) (auto simp add: funpow_swap1 split: prod.splits sum.splits)
    qed
  qed
qed

lemma insert_values_not_transient:
  "insert_values n a db = Rejected e \<Longrightarrow> \<not> transient (Some e)"
  by (auto simp: insert_values_def Let_def
      split: option.splits list.splits sqlval.splits if_splits)

lemma insert_all_not_transient:
  "insert_all ign n as db k = Inl e \<Longrightarrow> \<not> transient (Some e)"
  by (induction as arbitrary: db k)
     (auto split: insert_outcome.splits if_splits dest: insert_values_not_transient)

lemma update_where_not_transient:
  "update_where n t p f = Inl e \<Longrightarrow> \<not> transient (Some e)"
  by (auto simp: update_where_def Let_def split: if_splits)

lemma with_table_Inl:
  "with_table n cn f = Inl e \<Longrightarrow> (\<And>t. f t = Inl e \<Longrightarrow> \<not> transient (Some e)) \<Longrightarrow> \<not> transient (Some e)"
  by (auto simp: with_table_def split: option.splits)

lemma with_cols_Inl:
  "with_cols t cs k = Inl e \<Longrightarrow> (k = Inl e \<Longrightarrow> \<not> transient (Some e)) \<Longrightarrow> \<not> transient (Some e)"
  by (auto simp: with_cols_def split: list.splits)

lemma store_Inl:
  "store n cn res = Inl e \<Longrightarrow> res = Inl e"
  by (auto simp: store_def split: sum.splits prod.splits)

text \<open>The statements' own failures are never taken for lock contention.\<close>

lemma sql_not_transient: "sql dsk q cn = Inl e \<Longrightarrow> \<not> transient (Some e)"
proof (cases q)
  case (UPDATE_SET_WHERE n vals keys)
  assume a: "sql dsk q cn = Inl e"
  show ?thesis
    using a unfolding UPDATE_SET_WHERE
    by (auto simp: Let_def split: if_splits
        elim!: with_table_Inl with_cols_Inl dest!: store_Inl update_where_not_transient)
next
  case (UPDATE_reference_id s)
  assume a: "sql dsk q cn = Inl e"
  show ?thesis
    using a unfolding UPDATE_reference_id
    by (auto elim!: with_table_Inl with_cols_Inl dest!: store_Inl update_where_not_transient)
next
  case (INSERT_INTO_VALUES n asg)
  assume a: "sql dsk q cn = Inl e"
  show ?thesis
    using a unfolding INSERT_INTO_VALUES
    by (auto simp del: insert_all.simps split: if_splits sum.splits prod.splits
        dest!: insert_all_not_transient)
qed (auto split: if_splits option.splits sum.splits prod.splits list.splits
      elim!: with_table_Inl with_cols_Inl
      dest!: store_Inl update_where_not_transient insert_all_not_transient)

lemma db_step_refl [simp]: "db_step w w"
  by (simp add: db_step_def)

lemma db_step_trans: "db_step a b \<Longrightarrow> db_step b c \<Longrightarrow> db_step a c"
  by (simp add: db_step_def)

lemma db_step_basic [simp]:
  "db_step w (commit w)" "db_step w (rollback w)" "db_step w (logger l m w)"
  "db_step w (failed_attempt q w)"
  by (simp_all add: db_step_def commit_def rollback_def logger_def emit_def failed_attempt_def
      effects_def)

lemma db_step_execute: "execute q w = (x, w') \<Longrightarrow> db_step w w'"
  by (auto simp: execute_def Let_def db_step_def effects_def
      split: list.splits option.splits sum.splits prod.splits)

lemma db_step_raised: "raised e w = (x, w') \<Longrightarrow> db_step w w'"
  by (auto simp: raised_def db_step_def rollback_def logger_def emit_def effects_def
      split: exn.splits if_splits)

lemma db_step_funpow: "db_step w ((failed_attempt q ^^ j) w)"
  by (induction j) (auto intro: db_step_trans [OF _ db_step_basic(4)])

lemma funpow_failed_fields:
  "db_file ((failed_attempt q ^^ j) w) = db_file w"
  "conn ((failed_attempt q ^^ j) w) =
     (if j = 0 then conn w else (conn w)\<lparr>view := db_file w, in_transaction := False\<rparr>)"
  "faults ((failed_attempt q ^^ j) w) = drop j (faults w)"
  "trace ((failed_attempt q ^^ j) w) = trace w @ concat (replicate j (retry_events q))"
  "python2 ((failed_attempt q ^^ j) w) = python2 w"
  "disk ((failed_attempt q ^^ j) w) = disk w"
proof (induction j)
  case 0
  { case 1 show ?case by simp next
    case 2 show ?case by simp next
    case 3 show ?case by simp next
    case 4 show ?case by simp next
    case 5 show ?case by simp next
    case 6 show ?case by simp }
next
  case (Suc j)
  { case 1 with Suc show ?case by (simp add: failed_attempt_def emit_def logger_def rollback_def) next
    case 2 with Suc show ?case by (simp add: failed_attempt_def emit_def logger_def rollback_def) next
    case 3 with Suc show ?case by (simp add: failed_attempt_def emit_def logger_def rollback_def drop_Suc tl_drop) next
    case 4 with Suc show ?case by (simp add: failed_attempt_def emit_def logger_def rollback_def retry_events_def replicate_append_same [symmetric]) next
    case 5 with Suc show ?case by (simp add: failed_attempt_def emit_def logger_def rollback_def) next
    case 6 with Suc show ?case by (simp add: failed_attempt_def emit_def logger_def rollback_def) }
qed

lemma action_loop_elim [consumes 2, case_names exhausted returned raised]:
  assumes "action_loop q n w = (r, w')" "n \<le> 5"
  obtains (exhausted) j where "n + j = 5" "r = Inr None" "w' = (failed_attempt q ^^ j) w"
    | (returned) j cur w1 where "n + j < 5" "execute q ((failed_attempt q ^^ j) w) = (Inr cur, w1)"
        "r = Inr (Some cur)" "w' = commit w1"
    | (raised) j e w1 where "n + j < 5" "execute q ((failed_attempt q ^^ j) w) = (Inl e, w1)"
        "\<not> (python2 w \<and> transient (Some e))" "raised e w1 = (r, w')"
proof -
  from action_loop_cases [OF assms]
  obtain j where j: "n + j \<le> 5 \<and>
           ((n + j = 5 \<and> r = Inr None \<and> w' = (failed_attempt q ^^ j) w) \<or>
            (n + j < 5 \<and>
               (case execute q ((failed_attempt q ^^ j) w) of
                  (Inr cur, w1) \<Rightarrow> r = Inr (Some cur) \<and> w' = commit w1
                | (Inl e, w1) \<Rightarrow> \<not> (python2 w \<and> transient (Some e)) \<and> (r, w') = raised e w1)))"
    ..
  obtain x w1 where ex: "execute q ((failed_attempt q ^^ j) w) = (x, w1)"
    by (cases "execute q ((failed_attempt q ^^ j) w)")
  show thesis
  proof (cases "n + j = 5")
    case True
    with j show thesis by (intro exhausted [of j]) auto
  next
    case False
    with j have lt: "n + j < 5" by simp
    show thesis
    proof (cases x)
      case (Inl e)
      with j ex lt False show thesis by (intro raised [of j e w1]) auto
    next
      case (Inr cur)
      with j ex lt False show thesis by (intro returned [of j cur w1]) auto
    qed
  qed
qed

lemma execute_Inr:
  "execute q w = (Inr cur, w1) \<Longrightarrow>
     \<exists>cn1. sql (disk w) q (conn w) = Inr (cur, cn1) \<and>
           w1 = w\<lparr>trace := trace w @ [Execute q], faults := tl (faults w), conn := cn1\<rparr>"
  by (auto simp: execute_def Let_def split: list.splits option.splits sum.splits prod.splits)

lemma execute_Inl:
  "execute q w = (Inl e, w1) \<Longrightarrow> w1 = w\<lparr>trace := trace w @ [Execute q], faults := tl (faults w)\<rparr>"
  by (auto simp: execute_def Let_def split: list.splits option.splits sum.splits prod.splits)

lemma raised_fields:
  "raised e w1 = (r, w') \<Longrightarrow>
     (\<exists>e'. r = Inl e') \<and> db_file w' = db_file w1 \<and>
     conn w' = (conn w1)\<lparr>view := db_file w1, in_transaction := False\<rparr> \<and>
     faults w' = faults w1 \<and>
     (\<exists>evs. trace w' = trace w1 @ evs \<and> (\<forall>ev\<in>set evs. \<exists>l m. ev = Log l m))"
  by (auto simp: raised_def rollback_def logger_def emit_def split: exn.splits if_splits)

lemma retry_events_attempt: "ev \<in> set (concat (replicate j (retry_events q))) \<Longrightarrow> attempt_event q ev"
  by (induction j) (auto simp: retry_events_def attempt_event_def)

lemma retry_prefix:
  "\<exists>evs. concat (replicate j (retry_events q)) @ Execute q # rest = Execute q # evs \<and>
         (\<forall>ev\<in>set evs. attempt_event q ev \<or> ev \<in> set rest)"
proof (cases j)
  case 0
  then show ?thesis by simp
next
  case (Suc k)
  have "\<forall>ev\<in>set (concat (replicate k (retry_events q))). attempt_event q ev"
    by (blast intro: retry_events_attempt)
  then show ?thesis
    unfolding Suc by (auto simp: retry_events_def attempt_event_def)
qed

text \<open>What a call of action can do to the database and the connection.\<close>

lemma action_outcome:
  assumes "action (Some q) w = (r, w')"
  shows "db_step w w'"
    and "\<exists>evs. trace w' = trace w @ Execute q # evs \<and> (\<forall>ev\<in>set evs. attempt_event q ev)"
    and "case r of
           Inr (Some cur) \<Rightarrow>
             (\<exists>cn0 cn1. (cn0 = conn w \<or> cn0 = (conn w)\<lparr>view := db_file w, in_transaction := False\<rparr>) \<and>
                sql (disk w) q cn0 = Inr (cur, cn1) \<and>
                conn w' = cn1\<lparr>in_transaction := False\<rparr> \<and> db_file w' = view cn1)
         | _ \<Rightarrow> db_file w' = db_file w \<and>
                conn w' = (conn w)\<lparr>view := db_file w, in_transaction := False\<rparr>"
proof -
  from assms have loop: "action_loop q 0 w = (r, w')" by (simp add: action_def)
  have le: "(0::nat) \<le> 5" by simp
  from loop le show "db_step w w'"
  proof (cases rule: action_loop_elim)
    case (exhausted j)
    then show ?thesis by (simp add: db_step_funpow)
  next
    case (returned j cur w1)
    have "db_step w w1"
      using db_step_funpow db_step_execute [OF returned(2)] by (rule db_step_trans)
    then show ?thesis
      using returned(4) by (auto intro: db_step_trans)
  next
    case (raised j e w1)
    have "db_step w w1"
      using db_step_funpow db_step_execute [OF raised(2)] by (rule db_step_trans)
    then show ?thesis
      using db_step_raised [OF raised(4)] by (rule db_step_trans)
  qed
  from loop le show "\<exists>evs. trace w' = trace w @ Execute q # evs \<and> (\<forall>ev\<in>set evs. attempt_event q ev)"
  proof (cases rule: action_loop_elim)
    case (exhausted j)
    then have "j = Suc 4" by simp
    with exhausted show ?thesis
      by (auto simp add: funpow_failed_fields retry_events_def attempt_event_def numeral_eq_Suc simp del: funpow.simps)
  next
    case (returned j cur w1)
    from retry_prefix [of j q "[]"] obtain evs where
      "concat (replicate j (retry_events q)) @ [Execute q] = Execute q # evs"
      "\<forall>ev\<in>set evs. attempt_event q ev \<or> ev \<in> set []" by blast
    with returned(2,4) show ?thesis
      by (auto dest!: execute_Inr simp: funpow_failed_fields commit_def)
  next
    case (raised j e w1)
    from raised_fields [OF raised(4)] obtain l where
      l: "trace w' = trace w1 @ l" "\<forall>ev\<in>set l. \<exists>lv m. ev = Log lv m" by blast
    from retry_prefix [of j q l] obtain evs where
      evs: "concat (replicate j (retry_events q)) @ Execute q # l = Execute q # evs"
      "\<forall>ev\<in>set evs. attempt_event q ev \<or> ev \<in> set l" by blast
    have ok: "\<forall>ev\<in>set evs. attempt_event q ev"
      using evs(2) l(2) unfolding attempt_event_def by blast
    have "trace w' = trace w @ Execute q # evs"
      using raised(2) l(1) evs(1) by (auto dest!: execute_Inl simp: funpow_failed_fields)
    with ok show ?thesis by blast
  qed
  from loop le show "case r of
           Inr (Some cur) \<Rightarrow>
             (\<exists>cn0 cn1. (cn0 = conn w \<or> cn0 = (conn w)\<lparr>view := db_file w, in_transaction := False\<rparr>) \<and>
                sql (disk w) q cn0 = Inr (cur, cn1) \<and>
                conn w' = cn1\<lparr>in_transaction := False\<rparr> \<and> db_file w' = view cn1)
         | _ \<Rightarrow> db_file w' = db_file w \<and>
                conn w' = (conn w)\<lparr>view := db_file w, in_transaction := False\<rparr>"
  proof (cases rule: action_loop_elim)
    case (exhausted j)
    then have "j = 5" by simp
    with exhausted show ?thesis by (simp add: funpow_failed_fields del: funpow.simps)
  next
    case (returned j cur w1)
    show ?thesis
    proof (cases "j = 0")
      case True
      with returned show ?thesis
        by (auto dest!: execute_Inr simp: commit_def)
    next
      case False
      with returned show ?thesis
        by (auto dest!: execute_Inr simp: funpow_failed_fields commit_def simp del: funpow.simps)
    qed
  next
    case (raised j e w1)
    from raised_fields [OF raised(4)] raised(2) show ?thesis
      by (auto dest!: execute_Inl simp: funpow_failed_fields)
  qed
qed


lemma db_step_MonitorDatabase: "MonitorDatabase w = (x, w') \<Longrightarrow> db_step w w'"
proof -
  assume a: "MonitorDatabase w = (x, w')"
  let ?w0 = "w\<lparr>conn := \<lparr>view = db_file w, in_transaction = False, import_db = None, total_changes = 0\<rparr>\<rparr>"
  have 0: "db_step w ?w0" by (simp add: db_step_def)
  obtain x1 w1 where 1: "execute (PRAGMA_setting ''synchronous'') ?w0 = (x1, w1)"
    by (cases "execute (PRAGMA_setting ''synchronous'') ?w0")
  obtain x2 w2 where 2: "execute (PRAGMA_setting ''journal_mode'') w1 = (x2, w2)"
    by (cases "execute (PRAGMA_setting ''journal_mode'') w1")
  obtain x3 w3 where 3: "execute (PRAGMA_setting ''cache_size'') w2 = (x3, w3)"
    by (cases "execute (PRAGMA_setting ''cache_size'') w2")
  note s = db_step_execute [OF 1] db_step_execute [OF 2] db_step_execute [OF 3]
  have "w' = w1 \<or> w' = w2 \<or> w' = w3"
    using a 1 2 3 by (auto simp: MonitorDatabase_def then_do_def split: sum.splits)
  with 0 s show ?thesis by (auto intro: db_step_trans)
qed

lemma db_step_action: "action q w = (x, w') \<Longrightarrow> db_step w w'"
  by (cases q) (auto simp: action_def dest: action_outcome(1) [unfolded action_def, simplified])

lemma db_step_select_single: "select_single q w = (x, w') \<Longrightarrow> db_step w w'"
  by (auto simp: select_single_def then_do_def split: prod.splits sum.splits option.splits list.splits
      dest: db_step_action)

lemma db_step_select: "select q w = (x, w') \<Longrightarrow> db_step w w'"
  by (auto simp: select_def then_do_def split: prod.splits sum.splits option.splits
      dest: db_step_action)

lemma db_step_integrity_check: "integrity_check w = (x, w') \<Longrightarrow> db_step w w'"
  by (auto simp: integrity_check_def then_do_def split: prod.splits sum.splits
      dest: db_step_select_single db_step_MonitorDatabase intro: db_step_trans)



lemma settled_basic [simp]:
  "settled (emit ev w) = settled w"
  "settled (logger l m w) = settled w"
  "settled (rollback w)"
  "settled (commit w)"
  by (simp_all add: settled_def emit_def logger_def rollback_def commit_def)

lemma settled_action: "action (Some q) w = (r, w') \<Longrightarrow> settled w'"
  using action_outcome(3) [of q w r w']
  by (auto simp: settled_def split: sum.splits option.splits)





section \<open>The retry loop of action\<close>

lemma action_loop_exhausted:
  "k + n = 5 \<Longrightarrow> python2 w \<Longrightarrow> k \<le> length (faults w) \<Longrightarrow>
   \<forall>f\<in>set (take k (faults w)). transient f \<Longrightarrow>
   \<exists>w'. action_loop q n w = (Inr None, w') \<and>
        trace w' = trace w @ concat (replicate k (retry_events q)) \<and>
        faults w' = drop k (faults w) \<and> db_file w' = db_file w \<and>
        (0 < k \<longrightarrow> view (conn w') = db_file w)"
proof (induction k arbitrary: n w)
  case 0
  then show ?case by (subst action_loop.simps) simp
next
  case (Suc k)
  then obtain f fs where fs: "faults w = f # fs" by (cases "faults w") auto
  let ?w = "failed_attempt q w"
  have step: "action_loop q n w = action_loop q (n + 1) ?w"
    using Suc.prems fs by (intro action_loop_transient_step) auto
  have "\<exists>w'. action_loop q (n + 1) ?w = (Inr None, w') \<and>
        trace w' = trace ?w @ concat (replicate k (retry_events q)) \<and>
        faults w' = drop k (faults ?w) \<and> db_file w' = db_file ?w \<and>
        (0 < k \<longrightarrow> view (conn w') = db_file ?w)"
    using Suc.prems fs by (intro Suc.IH) (auto simp: failed_attempt_fields)
  then obtain w' where w': "action_loop q (n + 1) ?w = (Inr None, w')"
        "trace w' = trace ?w @ concat (replicate k (retry_events q))"
        "faults w' = drop k (faults ?w)" "db_file w' = db_file ?w"
        "0 < k \<longrightarrow> view (conn w') = db_file ?w" by blast
  have "view (conn w') = db_file w"
  proof (cases k)
    case 0
    then have "action_loop q (n + 1) ?w = (Inr None, ?w)"
      using Suc.prems(1) by (subst action_loop.simps) simp
    with w'(1) show ?thesis by (simp add: failed_attempt_fields)
  next
    case (Suc j)
    with w'(5) show ?thesis by (simp add: failed_attempt_fields)
  qed
  with step w' fs show ?case by (simp add: failed_attempt_fields drop_Suc)
qed

text \<open>
  C2, as the code has it. Under Python 2, on a statement that meets a transient fault at
  each of its attempts, \<^verbatim>\<open>action\<close> makes exactly five attempts, logs a warning and
  sleeps one second after each of them (the fifth included), and then returns \<^verbatim>\<open>None\<close>:
  it raises nothing. Nothing is committed, and the connection is rolled back.
\<close>

theorem action_gives_up_silently:
  assumes "python2 w" and "5 \<le> length (faults w)"
    and "\<forall>f\<in>set (take 5 (faults w)). transient f"
  shows "\<exists>w'. action (Some q) w = (Inr None, w') \<and>
           trace w' = trace w @ concat (replicate 5 (retry_events q)) \<and>
           faults w' = drop 5 (faults w) \<and>
           db_file w' = db_file w \<and> view (conn w') = db_file w"
  using action_loop_exhausted [of 5 0 w q] assms by (auto simp: action_def)

theorem action_gives_up_silently_witness:
  "\<exists>w'. action (Some VACUUM) locked_world = (Inr None, w') \<and>
        trace w' =
          [Execute VACUUM, Log WARN ''Tautulli Database :: Database Error: %s'', Sleep 1,
           Execute VACUUM, Log WARN ''Tautulli Database :: Database Error: %s'', Sleep 1,
           Execute VACUUM, Log WARN ''Tautulli Database :: Database Error: %s'', Sleep 1,
           Execute VACUUM, Log WARN ''Tautulli Database :: Database Error: %s'', Sleep 1,
           Execute VACUUM, Log WARN ''Tautulli Database :: Database Error: %s'', Sleep 1]"
proof -
  have "python2 locked_world" "5 \<le> length (faults locked_world)"
       "\<forall>f\<in>set (take 5 (faults locked_world)). transient f"
    by (simp_all add: locked_world_def blank_world_def transient_def)
  from action_gives_up_silently [OF this, of VACUUM]
  show ?thesis
    by (auto simp: locked_world_def blank_world_def retry_events_def numeral_eq_Suc)
qed

text \<open>The claim as written fails there: with the lock held at every attempt the call
  returns \<^verbatim>\<open>None\<close> instead of raising, and it has slept five times, not four.\<close>

theorem action_raises_after_retries_counterexample:
  "fst (action (Some VACUUM) locked_world) = Inr None \<and>
   length (filter (\<lambda>e. e = Sleep 1) (trace (snd (action (Some VACUUM) locked_world)))) = 5"
proof -
  have "python2 locked_world" "5 \<le> length (faults locked_world)"
       "\<forall>f\<in>set (take 5 (faults locked_world)). transient f"
    by (simp_all add: locked_world_def blank_world_def transient_def)
  from action_loop_exhausted [of 5 0 locked_world VACUUM] this
  show ?thesis
    by (auto simp: action_def locked_world_def blank_world_def retry_events_def numeral_eq_Suc)
qed

section \<open>upsert\<close>

lemma insert_written:
  assumes "action (Some (INSERT_INTO_VALUES t asg)) w1 = (Inr (Some cur), w2)" and "settled w1"
  shows "insert_values t asg (db_file w1) = Inserted (db_file w2)"
proof -
  from action_outcome(3) [OF assms(1)] obtain cn0 cn1 where
    cn: "cn0 = conn w1 \<or> cn0 = (conn w1)\<lparr>view := db_file w1, in_transaction := False\<rparr>"
      "sql (disk w1) (INSERT_INTO_VALUES t asg) cn0 = Inr (cur, cn1)"
      "db_file w2 = view cn1"
    by auto
  from cn(1) assms(2) have v: "view cn0 = db_file w1" by (auto simp: settled_def)
  from cn(2) v cn(3) show ?thesis
    by (auto simp: changed_def split: if_splits insert_outcome.splits sum.splits)
qed

lemma not_returned_keeps_file:
  assumes "action (Some q) w1 = (Inr None, w2)"
  shows "db_file w2 = db_file w1"
  using action_outcome(3) [OF assms] by simp

text \<open>
  C4. Every call of \<^verbatim>\<open>upsert\<close> first executes the \<^verbatim>\<open>UPDATE\<close> built from \<^verbatim>\<open>value_dict\<close> and
  \<^verbatim>\<open>key_dict\<close>. When that call of \<^verbatim>\<open>action\<close> raises, so does \<^verbatim>\<open>upsert\<close>. Otherwise the
  \<^verbatim>\<open>INSERT\<close> of the values and the keys is executed if and only if \<^verbatim>\<open>total_changes\<close> is what
  it was before the \<^verbatim>\<open>UPDATE\<close>. In that branch the call leaves the world as the \<^verbatim>\<open>INSERT\<close>
  left it: when the \<^verbatim>\<open>INSERT\<close> returned, the result is \<^verbatim>\<open>'insert'\<close> and the file holds what
  it held after the \<^verbatim>\<open>UPDATE\<close> with the new row added (or the same, when \<^verbatim>\<open>action\<close> gave up
  on a locked database and returned nothing); an \<^verbatim>\<open>IntegrityError\<close> of the \<^verbatim>\<open>INSERT\<close> is logged
  and not raised, the result being \<^verbatim>\<open>'insert'\<close>; any other exception of the \<^verbatim>\<open>INSERT\<close> is
  raised. In the other branch the result is \<^verbatim>\<open>'update'\<close> and nothing more is executed.
\<close>

theorem upsert_update_then_insert:
  assumes "upsert t vals keys w = (r, w')"
  shows "(\<exists>evs. trace w' = trace w @ Execute (UPDATE_SET_WHERE t vals keys) # evs) \<and>
         (case action (Some (UPDATE_SET_WHERE t vals keys)) w of
            (Inl e, w1) \<Rightarrow> r = Inl e \<and> w' = w1
          | (Inr r1, w1) \<Rightarrow>
              if total_changes (conn w1) = total_changes (conn w)
              then Execute (INSERT_INTO_VALUES t (vals @ keys)) \<in> set (drop (length (trace w)) (trace w')) \<and>
                   (case action (Some (INSERT_INTO_VALUES t (vals @ keys))) w1 of
                      (Inr r2, w2) \<Rightarrow>
                        r = Inr ''insert'' \<and> w' = w2 \<and>
                        (case r2 of
                           Some cur \<Rightarrow> insert_values t (vals @ keys) (db_file w1) = Inserted (db_file w')
                         | None \<Rightarrow> db_file w' = db_file w1)
                    | (Inl e, w2) \<Rightarrow>
                        (case e of
                           IntegrityError a \<Rightarrow>
                             r = Inr ''insert'' \<and>
                             w' = logger INFO ''Tautulli Database :: Queries failed: %s and %s'' w2
                         | _ \<Rightarrow> r = Inl e \<and> w' = w2))
              else Execute (INSERT_INTO_VALUES t (vals @ keys)) \<notin> set (drop (length (trace w)) (trace w')) \<and>
                   r = Inr ''update'' \<and> w' = w1)"
proof -
  let ?U = "UPDATE_SET_WHERE t vals keys" and ?I = "INSERT_INTO_VALUES t (vals @ keys)"
  obtain x w1 where u: "action (Some ?U) w = (x, w1)" by (cases "action (Some ?U) w")
  from action_outcome(2) [OF u] obtain evs1 where
    t1: "trace w1 = trace w @ Execute ?U # evs1" "\<forall>ev\<in>set evs1. attempt_event ?U ev" by blast
  note s1 = settled_action [OF u]
  show ?thesis
  proof (cases x)
    case (Inl e)
    with assms u t1 show ?thesis by (simp add: upsert_def then_do_def)
  next
    case (Inr r1)
    show ?thesis
    proof (cases "total_changes (conn w1) = total_changes (conn w)")
      case False
      with assms u Inr have "r = Inr ''update''" "w' = w1"
        by (simp_all add: upsert_def then_do_def)
      moreover have "Execute ?I \<notin> set (Execute ?U # evs1)"
        using t1(2) by (auto simp: attempt_event_def)
      ultimately show ?thesis using u Inr False t1 by simp
    next
      case True
      obtain y w2 where i: "action (Some ?I) w1 = (y, w2)" by (cases "action (Some ?I) w1")
      from action_outcome(2) [OF i] obtain evs2 where
        t2: "trace w2 = trace w1 @ Execute ?I # evs2" by blast
      have res: "(r, w') =
          (case y of
             Inl (IntegrityError a) \<Rightarrow>
               (Inr ''insert'', logger INFO ''Tautulli Database :: Queries failed: %s and %s'' w2)
           | Inl e \<Rightarrow> (Inl e, w2)
           | Inr r2 \<Rightarrow> (Inr ''insert'', w2))"
        using assms u Inr True i by (simp add: upsert_def then_do_def Let_def)
      have tr: "\<exists>evs. trace w' = trace w2 @ evs"
        using res by (auto simp: logger_def emit_def split: sum.splits exn.splits)
      then obtain evs3 where t3: "trace w' = trace w2 @ evs3" ..
      have ins: "case action (Some ?I) w1 of
                      (Inr r2, w2) \<Rightarrow>
                        r = Inr ''insert'' \<and> w' = w2 \<and>
                        (case r2 of
                           Some cur \<Rightarrow> insert_values t (vals @ keys) (db_file w1) = Inserted (db_file w')
                         | None \<Rightarrow> db_file w' = db_file w1)
                    | (Inl e, w2) \<Rightarrow>
                        (case e of
                           IntegrityError a \<Rightarrow>
                             r = Inr ''insert'' \<and>
                             w' = logger INFO ''Tautulli Database :: Queries failed: %s and %s'' w2
                         | _ \<Rightarrow> r = Inl e \<and> w' = w2)"
      proof (cases y)
        case (Inl e)
        with res i show ?thesis by (cases e) auto
      next
        case r2: (Inr r2)
        with res have rw: "r = Inr ''insert''" "w' = w2" by auto
        show ?thesis
        proof (cases r2)
          case None
          with i r2 rw not_returned_keeps_file [of ?I w1 w2] show ?thesis by simp
        next
          case (Some cur)
          with i r2 rw insert_written [of t "vals @ keys" w1 cur w2] s1 show ?thesis by simp
        qed
      qed
      show ?thesis
        using u Inr True t1 t2 t3 ins by simp
    qed
  qed
qed

lemma upsert_alice: "upsert ''users'' [(''name'', SText ''alice'')] [(''user_id'', SInt 8)] users_world =
   (Inr ''insert'', snd (upsert ''users'' [(''name'', SText ''alice'')] [(''user_id'', SInt 8)] users_world))"
proof -
  have "fst (upsert ''users'' [(''name'', SText ''alice'')] [(''user_id'', SInt 8)] users_world) = Inr ''insert''"
    by code_simp
  then show ?thesis by (simp add: prod_eq_iff)
qed

theorem upsert_update_then_insert_witness:
  "fst (upsert ''users'' [(''name'', SText ''alice'')] [(''user_id'', SInt 8)] users_world) = Inr ''insert'' \<and>
   (\<exists>evs. trace (snd (upsert ''users'' [(''name'', SText ''alice'')] [(''user_id'', SInt 8)] users_world)) =
      trace users_world @
      Execute (UPDATE_SET_WHERE ''users'' [(''name'', SText ''alice'')] [(''user_id'', SInt 8)]) # evs) \<and>
   insert_values ''users'' ([(''name'', SText ''alice'')] @ [(''user_id'', SInt 8)]) users_db =
     Inserted (db_file (snd (upsert ''users'' [(''name'', SText ''alice'')] [(''user_id'', SInt 8)] users_world))) \<and>
   map_of (tables (db_file (snd (upsert ''users'' [(''name'', SText ''alice'')] [(''user_id'', SInt 8)] users_world))))
     ''users'' =
     Some (users_table\<lparr>rows := [(1, [SInt 7, SText ''bob'']), (2, [SInt 8, SText ''alice''])]\<rparr>)"
proof -
  let ?U = "UPDATE_SET_WHERE ''users'' [(''name'', SText ''alice'')] [(''user_id'', SInt 8)]"
  let ?I = "INSERT_INTO_VALUES ''users'' ([(''name'', SText ''alice'')] @ [(''user_id'', SInt 8)])"
  let ?w' = "snd (upsert ''users'' [(''name'', SText ''alice'')] [(''user_id'', SInt 8)] users_world)"
  define w1 where "w1 = snd (action (Some ?U) users_world)"
  define w2 where "w2 = snd (action (Some ?I) (snd (action (Some ?U) users_world)))"
  have "fst (action (Some ?U) users_world) = Inr (Some [])" by code_simp
  then have a1: "action (Some ?U) users_world = (Inr (Some []), w1)"
    by (simp add: prod_eq_iff w1_def)
  have "total_changes (conn (snd (action (Some ?U) users_world))) = total_changes (conn users_world)"
    by code_simp
  then have a2: "total_changes (conn w1) = total_changes (conn users_world)"
    by (simp only: w1_def)
  have "fst (action (Some ?I) (snd (action (Some ?U) users_world))) = Inr (Some [])" by code_simp
  then have a3: "action (Some ?I) w1 = (Inr (Some []), w2)"
    by (simp add: prod_eq_iff w1_def w2_def)
  have "db_file (snd (action (Some ?U) users_world)) = users_db" by code_simp
  then have d: "db_file w1 = users_db" by (simp only: w1_def)
  have row: "map_of (tables (db_file ?w')) ''users'' =
     Some (users_table\<lparr>rows := [(1, [SInt 7, SText ''bob'']), (2, [SInt 8, SText ''alice''])]\<rparr>)"
    by code_simp
  have f: "fst (upsert ''users'' [(''name'', SText ''alice'')] [(''user_id'', SInt 8)] users_world) = Inr ''insert''"
    by code_simp
  from upsert_update_then_insert [OF upsert_alice]
  have "(\<exists>evs. trace ?w' = trace users_world @ Execute ?U # evs) \<and>
        insert_values ''users'' ([(''name'', SText ''alice'')] @ [(''user_id'', SInt 8)]) (db_file w1) =
          Inserted (db_file ?w')"
    by (simp only: a1 a2 a3 prod.case sum.case option.case simp_thms if_True) blast
  with d row f show ?thesis by (simp only:)
qed

lemma update_triv_map_of: "map_of al k = Some v \<Longrightarrow> AList.update k v al = al"
  by (induction al) auto

lemma update_where_none:
  assumes "update_where n t p f = Inr (t', 0)"
  shows "t' = t"
proof -
  from assms have "filter p (rows t) = []"
    by (auto simp: update_where_def Let_def split: if_splits)
  then have "\<forall>r\<in>set (rows t). \<not> p r" by (simp add: filter_empty_conv)
  then have "map (\<lambda>r. if p r then f r else r) (rows t) = rows t"
    by (induction "rows t") (auto simp: map_idI)
  with assms show ?thesis
    by (auto simp: update_where_def Let_def split: if_splits)
qed

lemma sql_update_unchanged:
  assumes "sql dsk (UPDATE_SET_WHERE n vals keys) cn = Inr (cur, cn1)"
    and "total_changes cn1 = total_changes cn"
  shows "cn1 = cn"
proof -
  from assms(1) obtain t t' k where
    t: "map_of (tables (view cn)) n = Some t"
    and u: "update_where n t (\<lambda>r. \<forall>(c, v)\<in>set keys. sql_eq (cell t r c) v)
              (\<lambda>r. fold (\<lambda>(c, v). set_cell t c v) vals r) = Inr (t', k)"
    and c: "cn1 = changed k (put_table n t' (view cn)) cn"
    by (auto simp: with_table_def with_cols_def store_def Let_def
        split: if_splits option.splits list.splits sum.splits prod.splits)
  from c assms(2) have "k = 0" by (simp add: changed_def)
  with u have "t' = t" by (auto dest: update_where_none)
  with c t \<open>k = 0\<close> show ?thesis
    by (simp add: changed_def put_table_def update_triv_map_of)
qed

text \<open>
  C9. When the \<^verbatim>\<open>UPDATE\<close> of \<^verbatim>\<open>upsert\<close> left \<^verbatim>\<open>total_changes\<close> as it was and the fallback
  \<^verbatim>\<open>INSERT\<close> raises an \<^verbatim>\<open>IntegrityError\<close>, \<^verbatim>\<open>upsert\<close> returns \<^verbatim>\<open>'insert'\<close> although neither
  statement wrote anything: the connection sees, and the file holds, what the connection
  saw before the call (or what was committed before it, when an attempt of the
  \<^verbatim>\<open>UPDATE\<close> was rolled back on the way).
\<close>

theorem upsert_reports_insert_without_write:
  assumes "action (Some (UPDATE_SET_WHERE t vals keys)) w = (Inr r1, w1)"
    and "total_changes (conn w1) = total_changes (conn w)"
    and "action (Some (INSERT_INTO_VALUES t (vals @ keys))) w1 = (Inl (IntegrityError a), w2)"
  shows "\<exists>w'. upsert t vals keys w = (Inr ''insert'', w') \<and>
              view (conn w') \<in> {view (conn w), db_file w} \<and>
              db_file w' \<in> {view (conn w), db_file w} \<and>
              db_file w' = view (conn w')"
proof -
  let ?w' = "logger INFO ''Tautulli Database :: Queries failed: %s and %s'' w2"
  have res: "upsert t vals keys w = (Inr ''insert'', ?w')"
    using assms by (simp add: upsert_def then_do_def Let_def)
  have w2: "db_file w2 = db_file w1" "view (conn w2) = db_file w1"
    using action_outcome(3) [OF assms(3)] by simp_all
  have "db_file w1 \<in> {view (conn w), db_file w}"
  proof (cases r1)
    case None
    with action_outcome(3) [OF assms(1)] show ?thesis by simp
  next
    case (Some cur)
    with action_outcome(3) [OF assms(1)] obtain cn0 cn1 where
      cn: "cn0 = conn w \<or> cn0 = (conn w)\<lparr>view := db_file w, in_transaction := False\<rparr>"
        "sql (disk w) (UPDATE_SET_WHERE t vals keys) cn0 = Inr (cur, cn1)"
        "conn w1 = cn1\<lparr>in_transaction := False\<rparr>" "db_file w1 = view cn1"
      by auto
    from cn(1,3) assms(2) have "total_changes cn1 = total_changes cn0" by auto
    with cn(2) have "cn1 = cn0" by (rule sql_update_unchanged)
    with cn(1,4) show ?thesis by auto
  qed
  with res w2 show ?thesis by (auto simp: logger_def emit_def)
qed


theorem upsert_reports_insert_without_write_witness:
  "fst (upsert ''users'' [(''name'', SText ''bob'')] [(''user_id'', SInt 8)] users_world) = Inr ''insert'' \<and>
   view (conn (snd (upsert ''users'' [(''name'', SText ''bob'')] [(''user_id'', SInt 8)] users_world))) = users_db \<and>
   db_file (snd (upsert ''users'' [(''name'', SText ''bob'')] [(''user_id'', SInt 8)] users_world)) = users_db"
proof -
  let ?U = "UPDATE_SET_WHERE ''users'' [(''name'', SText ''bob'')] [(''user_id'', SInt 8)]"
  let ?I = "INSERT_INTO_VALUES ''users'' ([(''name'', SText ''bob'')] @ [(''user_id'', SInt 8)])"
  let ?w1 = "snd (action (Some ?U) users_world)"
  have "fst (action (Some ?U) users_world) = Inr (Some [])" by code_simp
  then have a1: "action (Some ?U) users_world = (Inr (Some []), ?w1)"
    by (simp add: prod_eq_iff)
  have a2: "total_changes (conn ?w1) = total_changes (conn users_world)" by code_simp
  have "fst (action (Some ?I) ?w1) = Inl (IntegrityError [''UNIQUE constraint failed: users''])"
    by code_simp
  then have a3: "action (Some ?I) ?w1 =
      (Inl (IntegrityError [''UNIQUE constraint failed: users'']), snd (action (Some ?I) ?w1))"
    by (simp add: prod_eq_iff)
  have "view (conn users_world) = users_db" "db_file users_world = users_db"
    by (simp_all add: users_world_def blank_world_def)
  with upsert_reports_insert_without_write [OF a1 a2 a3]
  show ?thesis by auto
qed


section \<open>Deleting history\<close>







section \<open>make_backup\<close>

lemma is_digit_digit_char: "d < 10 \<Longrightarrow> is_digit (digit_char d)"
  by (simp add: is_digit_def digit_char_def)

lemma digits_are_digits: "c \<in> set (digits n) \<Longrightarrow> is_digit c"
proof (induction n arbitrary: c rule: digits.induct)
  case (1 n)
  show ?case
  proof (cases "n < 10")
    case True
    with "1.prems" show ?thesis by (subst (asm) digits.simps) (simp add: is_digit_digit_char)
  next
    case False
    with "1.prems" have "c \<in> set (digits (n div 10)) \<or> c = digit_char (n mod 10)"
      by (subst (asm) digits.simps) auto
    with "1.IH" False show ?thesis by (auto simp: is_digit_digit_char)
  qed
qed

lemma pad_digits: "c \<in> set (pad k n) \<Longrightarrow> is_digit c"
  by (auto simp: pad_def is_digit_def dest: digits_are_digits)

lemma format_stamp_digits: "c \<in> set (format_stamp t) \<Longrightarrow> is_digit c"
  by (auto simp: format_stamp_def dest: pad_digits)

lemma corrupt_infix:
  "sublist ''.corrupt'' (backup_file_name scheduler t (if ok then [] else ''.corrupt'')) \<longleftrightarrow> \<not> ok"
proof (cases ok)
  case False
  have "sublist ''.corrupt'' (''tautulli.backup-'' @ format_stamp t @ ''.corrupt'' @ s)" for s
    by (metis sublist_appendI sublist_append_rightI append.assoc)
  with False show ?thesis by (simp add: backup_file_name_def)
next
  case True
  have "\<not> sublist ''.corrupt'' (backup_file_name scheduler t [])"
  proof
    assume "sublist ''.corrupt'' (backup_file_name scheduler t [])"
    then have "set ''.corrupt'' \<subseteq> set (backup_file_name scheduler t [])"
      by (rule set_mono_sublist)
    then have "CHR ''r'' \<in> set (backup_file_name scheduler t [])" by auto
    then have "CHR ''r'' \<in> set (format_stamp t)"
      by (auto simp: backup_file_name_def split: if_splits)
    then have "is_digit (CHR ''r'')" by (rule format_stamp_digits)
    then show False by (simp add: is_digit_def)
  qed
  with True show ?thesis by simp
qed


lemma effects_simps [simp]:
  "effects [] = []"
  "effects (Remove p # evs) = Remove p # effects evs"
  "effects (Log l m # evs) = effects evs"
  "effects (Execute q # evs) = effects evs"
  "effects (Sleep k # evs) = effects evs"
  "effects (Notify s # evs) = Notify s # effects evs"
  "effects (MakeDirs s # evs) = MakeDirs s # effects evs"
  "effects (CopyFile a b # evs) = CopyFile a b # effects evs"
  "effects (xs @ ys) = effects xs @ effects ys"
  by (simp_all add: effects_def)

lemma swept_emit [simp]:
  "swept cutoff d (emit ev w) = swept cutoff d w"
  "swept cutoff d (logger l m w) = swept cutoff d w"
  by (simp_all add: swept_def emit_def logger_def fun_eq_iff)

lemma remove_old_result:
  "remove_old cutoff d fs w = (fs', w') \<Longrightarrow>
     fs' = filter (\<lambda>fm. \<not> swept cutoff d w fm) fs \<and>
     (\<exists>evs. w' = w\<lparr>trace := trace w @ evs\<rparr> \<and> effects evs = map Remove (old_paths cutoff d fs))"
proof (induction fs arbitrary: w fs' w')
  case Nil
  then show ?case by (auto simp: old_paths_def intro!: exI [of _ "[]"])
next
  case (Cons fm fs)
  obtain f m where fm: "fm = (f, m)" by (cases fm)
  show ?case
  proof (cases "suffix ''.sched.db'' f \<and> m < cutoff")
    case False
    with Cons.prems fm obtain fs0 where
      r: "remove_old cutoff d fs w = (fs0, w')" and fs': "fs' = (f, m) # fs0"
      by (auto split: prod.splits)
    from Cons.IH [OF r] False fm fs' show ?thesis
      by (auto simp: swept_def old_backup_def old_paths_def)
  next
    case True
    show ?thesis
    proof (cases "path_join d f \<in> set (undeletable w)")
      case False
      let ?w1 = "emit (Remove (path_join d f)) w"
      from Cons.prems fm True False have r: "remove_old cutoff d fs ?w1 = (fs', w')" by simp
      from Cons.IH [OF r] obtain evs where
        e: "fs' = filter (\<lambda>fm. \<not> swept cutoff d w fm) fs"
           "w' = ?w1\<lparr>trace := trace ?w1 @ evs\<rparr>" "effects evs = map Remove (old_paths cutoff d fs)"
        by auto
      have "w' = w\<lparr>trace := trace w @ (Remove (path_join d f) # evs)\<rparr>"
        using e(2) by (simp add: emit_def)
      moreover have "effects (Remove (path_join d f) # evs) = map Remove (old_paths cutoff d (fm # fs))"
        using e(3) True fm by (simp add: old_paths_def old_backup_def)
      ultimately show ?thesis
        using e(1) True False fm by (auto simp: swept_def old_backup_def)
    next
      case und: True
      let ?w1 = "logger ERROR ''Tautulli Database :: Failed to delete %s from the backup folder: %s''
                         (emit (Remove (path_join d f)) w)"
      from Cons.prems fm True und obtain fs0 where
        r: "remove_old cutoff d fs ?w1 = (fs0, w')" and fs': "fs' = (f, m) # fs0"
        by (auto split: prod.splits)
      from Cons.IH [OF r] obtain evs where
        e: "fs0 = filter (\<lambda>fm. \<not> swept cutoff d w fm) fs"
           "w' = ?w1\<lparr>trace := trace ?w1 @ evs\<rparr>" "effects evs = map Remove (old_paths cutoff d fs)"
        by auto
      have "w' = w\<lparr>trace := trace w @ (Remove (path_join d f) #
                Log ERROR ''Tautulli Database :: Failed to delete %s from the backup folder: %s'' # evs)\<rparr>"
        using e(2) by (simp add: emit_def logger_def)
      moreover have "effects (Remove (path_join d f) #
                Log ERROR ''Tautulli Database :: Failed to delete %s from the backup folder: %s'' # evs) =
                map Remove (old_paths cutoff d (fm # fs))"
        using e(3) True fm by (simp add: old_paths_def old_backup_def)
      ultimately show ?thesis
        using e(1) True und fm fs' by (auto simp: swept_def old_backup_def)
    qed
  qed
qed

lemma sweep_nested_result:
  "sweep_nested cutoff ds w = (ds', w') \<Longrightarrow>
     ds' = map (\<lambda>(d, fs). (d, filter (\<lambda>fm. \<not> swept cutoff d w fm) fs)) ds \<and>
     (\<exists>evs. w' = w\<lparr>trace := trace w @ evs\<rparr> \<and>
            effects evs = map Remove (concat (map (\<lambda>(d, fs). old_paths cutoff d fs) ds)))"
proof (induction ds arbitrary: w ds' w')
  case Nil
  then show ?case by (auto intro!: exI [of _ "[]"])
next
  case (Cons dfs ds)
  obtain d fs where dfs: "dfs = (d, fs)" by (cases dfs)
  from Cons.prems dfs obtain fs1 w1 ds1 where
    a: "remove_old cutoff d fs w = (fs1, w1)" "sweep_nested cutoff ds w1 = (ds1, w')"
       "ds' = (d, fs1) # ds1"
    by (auto split: prod.splits)
  from remove_old_result [OF a(1)] obtain evs1 where
    1: "fs1 = filter (\<lambda>fm. \<not> swept cutoff d w fm) fs" "w1 = w\<lparr>trace := trace w @ evs1\<rparr>"
       "effects evs1 = map Remove (old_paths cutoff d fs)" by auto
  from Cons.IH [OF a(2)] obtain evs2 where
    2: "ds1 = map (\<lambda>(d, fs). (d, filter (\<lambda>fm. \<not> swept cutoff d w1 fm) fs)) ds"
       "w' = w1\<lparr>trace := trace w1 @ evs2\<rparr>"
       "effects evs2 = map Remove (concat (map (\<lambda>(d, fs). old_paths cutoff d fs) ds))" by auto
  have sw: "swept cutoff d' w1 = swept cutoff d' w" for d'
    using 1(2) by (simp add: swept_def fun_eq_iff)
  have "w' = w\<lparr>trace := trace w @ (evs1 @ evs2)\<rparr>" using 1(2) 2(2) by simp
  moreover have "effects (evs1 @ evs2) = map Remove (concat (map (\<lambda>(d, fs). old_paths cutoff d fs) (dfs # ds)))"
    using 1(3) 2(3) dfs by simp
  ultimately show ?case using a(3) 1(1) 2(1) dfs sw by auto
qed

lemma sweep_result:
  "backup_files (sweep cutoff w) = filter (\<lambda>fm. \<not> swept cutoff (backup_dir w) w fm) (backup_files w)"
  "nested_files (sweep cutoff w) =
     map (\<lambda>(d, fs). (d, filter (\<lambda>fm. \<not> swept cutoff d w fm) fs)) (nested_files w)"
  "effects (trace (sweep cutoff w)) =
     effects (trace w) @ map Remove (old_paths cutoff (backup_dir w) (backup_files w) @
     concat (map (\<lambda>(d, fs). old_paths cutoff d fs) (nested_files w)))"
  "notify_queue (sweep cutoff w) = notify_queue w"
  "backup_subdirs (sweep cutoff w) = backup_subdirs w"
proof -
  obtain fs1 w1 where a: "remove_old cutoff (backup_dir w) (backup_files w) w = (fs1, w1)"
    by (cases "remove_old cutoff (backup_dir w) (backup_files w) w")
  obtain ds1 w2 where b: "sweep_nested cutoff (nested_files w) w1 = (ds1, w2)"
    by (cases "sweep_nested cutoff (nested_files w) w1")
  from remove_old_result [OF a] obtain evs1 where
    1: "fs1 = filter (\<lambda>fm. \<not> swept cutoff (backup_dir w) w fm) (backup_files w)"
       "w1 = w\<lparr>trace := trace w @ evs1\<rparr>"
       "effects evs1 = map Remove (old_paths cutoff (backup_dir w) (backup_files w))" by auto
  from sweep_nested_result [OF b] obtain evs2 where
    2: "ds1 = map (\<lambda>(d, fs). (d, filter (\<lambda>fm. \<not> swept cutoff d w1 fm) fs)) (nested_files w)"
       "w2 = w1\<lparr>trace := trace w1 @ evs2\<rparr>"
       "effects evs2 = map Remove (concat (map (\<lambda>(d, fs). old_paths cutoff d fs) (nested_files w)))" by auto
  have sw: "swept cutoff d' w1 = swept cutoff d' w" for d'
    using 1(2) by (simp add: swept_def fun_eq_iff)
  have s: "sweep cutoff w = w2\<lparr>backup_files := fs1, nested_files := ds1\<rparr>"
    using a b by (simp add: sweep_def)
  show "backup_files (sweep cutoff w) = filter (\<lambda>fm. \<not> swept cutoff (backup_dir w) w fm) (backup_files w)"
    using s 1(1) by simp
  show "nested_files (sweep cutoff w) =
     map (\<lambda>(d, fs). (d, filter (\<lambda>fm. \<not> swept cutoff d w fm) fs)) (nested_files w)"
    using s 2(1) sw by simp
  show "effects (trace (sweep cutoff w)) =
     effects (trace w) @ map Remove (old_paths cutoff (backup_dir w) (backup_files w) @
     concat (map (\<lambda>(d, fs). old_paths cutoff d fs) (nested_files w)))"
    using s 1(2,3) 2(2,3) by simp
  show "notify_queue (sweep cutoff w) = notify_queue w" using s 1(2) 2(2) by simp
  show "backup_subdirs (sweep cutoff w) = backup_subdirs w" using s 1(2) 2(2) by simp
qed


lemma then_do_Inr:
  "then_do m f = (Inr b, w') \<Longrightarrow> \<exists>a w1. m = (Inr a, w1) \<and> f a w1 = (Inr b, w')"
  by (auto simp: then_do_def split: prod.splits sum.splits)

lemma make_backup_returns:
  assumes "make_backup cleanup scheduler w = (Inr b, w')"
  shows "\<exists>res w1 v.
     integrity_check w = (Inr res, w1) \<and> map_of res ''integrity_check'' = Some v \<and>
     notify_queue w' = notify_queue w @ (if v = SText ''ok'' then [] else [''on_plexpydbcorrupt'']) \<and>
     backup_subdirs w' = (if backup_dir_exists w then backup_subdirs w else []) \<and>
     (b \<longleftrightarrow> produced_name scheduler w v \<in> set (listdir w')) \<and>
     (if cleanup \<and> v = SText ''ok''
      then backup_files w' =
             filter (\<lambda>fm. \<not> swept (sweep_cutoff w) (backup_dir w) w fm) (files_after_copy scheduler w v) \<and>
           nested_files w' =
             map (\<lambda>(d, fs). (d, filter (\<lambda>fm. \<not> swept (sweep_cutoff w) d w fm) fs)) (nested_after_copy w) \<and>
           effects (trace w') =
             effects (trace w) @ effects_before_sweep scheduler w v @
             map Remove (old_paths (sweep_cutoff w) (backup_dir w) (files_after_copy scheduler w v) @
                         concat (map (\<lambda>(d, fs). old_paths (sweep_cutoff w) d fs) (nested_after_copy w)))
      else backup_files w' = files_after_copy scheduler w v \<and>
           nested_files w' = nested_after_copy w \<and>
           effects (trace w') = effects (trace w) @ effects_before_sweep scheduler w v)"
proof -
  from assms [unfolded make_backup_def] obtain res w1 where
    ic: "integrity_check w = (Inr res, w1)" and
    r1: "(case map_of res ''integrity_check'' of
            None \<Rightarrow> (Inl KeyError, w1)
          | Some v \<Rightarrow>
             (let integrity = (v = SText ''ok'');
                  corrupt = (if \<not> integrity then ''.corrupt'' else []);
                  w2 = (if \<not> integrity then notify_corrupt w1 else w1);
                  backup_file = backup_file_name scheduler (stamp w2) corrupt;
                  backup_file_fp = path_join (backup_dir w2) backup_file;
                  w3 = (if \<not> backup_dir_exists w2 then makedirs w2 else w2)
              in then_do (MonitorDatabase w3)
                   (\<lambda>u. \<lambda>w4. then_do (execute BEGIN_IMMEDIATE w4)
                   (\<lambda>c. \<lambda>w5. then_do (copyfile (db_filename w5) backup_file backup_file_fp w5)
                   (\<lambda>u. \<lambda>w6.
                      let w7 = rollback w6;
                          w8 = (if cleanup \<and> integrity
                                then sweep (time_now w7 - real_of_int (backup_days w7) * 86400) w7
                                else w7)
                      in if backup_file \<in> set (listdir w8)
                         then (Inr True, logger DEBUG ''Tautulli Database :: Successfully backed up %s to %s'' w8)
                         else (Inr False, logger ERROR ''Tautulli Database :: Failed to backup %s to %s'' w8)))))) =
         (Inr b, w')"
    by (blast dest: then_do_Inr)
  from r1 obtain v where v: "map_of res ''integrity_check'' = Some v"
    by (cases "map_of res ''integrity_check''") auto
  define ok where "ok = (v = SText ''ok'')"
  define w2 where "w2 = (if \<not> ok then notify_corrupt w1 else w1)"
  define name where "name = backup_file_name scheduler (stamp w2) (if \<not> ok then ''.corrupt'' else [])"
  define w3 where "w3 = (if \<not> backup_dir_exists w2 then makedirs w2 else w2)"
  from r1 v have r2:
    "then_do (MonitorDatabase w3)
       (\<lambda>u. \<lambda>w4. then_do (execute BEGIN_IMMEDIATE w4)
       (\<lambda>c. \<lambda>w5. then_do (copyfile (db_filename w5) name (path_join (backup_dir w2) name) w5)
       (\<lambda>u. \<lambda>w6.
          let w7 = rollback w6;
              w8 = (if cleanup \<and> ok
                    then sweep (time_now w7 - real_of_int (backup_days w7) * 86400) w7
                    else w7)
          in if name \<in> set (listdir w8)
             then (Inr True, logger DEBUG ''Tautulli Database :: Successfully backed up %s to %s'' w8)
             else (Inr False, logger ERROR ''Tautulli Database :: Failed to backup %s to %s'' w8)))) =
     (Inr b, w')"
    unfolding ok_def w2_def name_def w3_def by (simp only: Let_def option.case)
  obtain x4 w4 where m0: "MonitorDatabase w3 = (x4, w4)" by (cases "MonitorDatabase w3")
  have "\<exists>u. x4 = Inr u" using r2 m0 by (cases x4) (simp_all add: then_do_def)
  then obtain u where m: "MonitorDatabase w3 = (Inr u, w4)" using m0 by auto
  obtain x5 w5 where e0: "execute BEGIN_IMMEDIATE w4 = (x5, w5)" by (cases "execute BEGIN_IMMEDIATE w4")
  have "\<exists>c. x5 = Inr c" using r2 m e0 by (cases x5) (simp_all add: then_do_def)
  then obtain c where e: "execute BEGIN_IMMEDIATE w4 = (Inr c, w5)" using e0 by auto
  obtain x6 w6 where cp0: "copyfile (db_filename w5) name (path_join (backup_dir w2) name) w5 = (x6, w6)"
    by (cases "copyfile (db_filename w5) name (path_join (backup_dir w2) name) w5")
  have "\<exists>c. x6 = Inr c" using r2 m e cp0 by (cases x6) (simp_all add: then_do_def)
  then have cp: "copyfile (db_filename w5) name (path_join (backup_dir w2) name) w5 = (Inr (), w6)"
    using cp0 by auto
  define w7 where "w7 = rollback w6"
  define w8 where "w8 = (if cleanup \<and> ok
                    then sweep (time_now w7 - real_of_int (backup_days w7) * 86400) w7 else w7)"
  have s01: "db_step w w1" using ic by (rule db_step_integrity_check)
  have s35: "db_step w3 w5"
    using db_step_MonitorDatabase [OF m] db_step_execute [OF e] by (rule db_step_trans)
  have w6: "w6 = emit (CopyFile (db_filename w5) (path_join (backup_dir w2) name))
                  (w5\<lparr>backup_files := AList.update name (copy_time w5) (backup_files w5)\<rparr>)"
    using cp by (auto simp: copyfile_def split: if_splits)
  have fin: "b = (name \<in> set (listdir w8))" "w' = logger (if b then DEBUG else ERROR)
      (if b then ''Tautulli Database :: Successfully backed up %s to %s''
       else ''Tautulli Database :: Failed to backup %s to %s'') w8"
    using r2 m e cp by (auto simp: then_do_def Let_def w7_def w8_def split: if_splits)
  have f1: "stamp w1 = stamp w" "backup_dir w1 = backup_dir w" "backup_dir_exists w1 = backup_dir_exists w"
    "backup_files w1 = backup_files w" "nested_files w1 = nested_files w"
    "backup_subdirs w1 = backup_subdirs w" "notify_queue w1 = notify_queue w"
    "copy_time w1 = copy_time w" "time_now w1 = time_now w" "backup_days w1 = backup_days w"
    "undeletable w1 = undeletable w" "effects (trace w1) = effects (trace w)" "data_dir w1 = data_dir w"
    using s01 by (simp_all add: db_step_def)
  have f3: "stamp w3 = stamp w" "backup_dir w3 = backup_dir w"
    "backup_files w3 = (if backup_dir_exists w then backup_files w else [])"
    "nested_files w3 = (if backup_dir_exists w then nested_files w else [])"
    "backup_subdirs w3 = (if backup_dir_exists w then backup_subdirs w else [])"
    "notify_queue w3 = notify_queue w @ (if ok then [] else [''on_plexpydbcorrupt''])"
    "copy_time w3 = copy_time w" "time_now w3 = time_now w" "backup_days w3 = backup_days w"
    "undeletable w3 = undeletable w"
    "effects (trace w3) = effects (trace w) @ (if ok then [] else [Notify ''on_plexpydbcorrupt'']) @
       (if backup_dir_exists w then [] else [MakeDirs (backup_dir w)])"
    "stamp w2 = stamp w" "backup_dir w2 = backup_dir w" "data_dir w3 = data_dir w"
    using f1 by (simp_all add: w3_def w2_def makedirs_def notify_corrupt_def emit_def)
  have f5: "stamp w5 = stamp w" "backup_dir w5 = backup_dir w"
    "backup_files w5 = (if backup_dir_exists w then backup_files w else [])"
    "nested_files w5 = (if backup_dir_exists w then nested_files w else [])"
    "backup_subdirs w5 = (if backup_dir_exists w then backup_subdirs w else [])"
    "notify_queue w5 = notify_queue w @ (if ok then [] else [''on_plexpydbcorrupt''])"
    "copy_time w5 = copy_time w" "time_now w5 = time_now w" "backup_days w5 = backup_days w"
    "undeletable w5 = undeletable w"
    "effects (trace w5) = effects (trace w) @ (if ok then [] else [Notify ''on_plexpydbcorrupt'']) @
       (if backup_dir_exists w then [] else [MakeDirs (backup_dir w)])"
    "data_dir w5 = data_dir w"
    using s35 f3 by (simp_all add: db_step_def)
  have nm: "name = produced_name scheduler w v"
    using f3(12) by (simp add: name_def produced_name_def ok_def)
  define files0 where "files0 = files_after_copy scheduler w v"
  define nested0 where "nested0 = nested_after_copy w"
  define cutoff where "cutoff = sweep_cutoff w"
  have f7: "backup_dir w7 = backup_dir w" "backup_files w7 = files0" "nested_files w7 = nested0"
    "backup_subdirs w7 = (if backup_dir_exists w then backup_subdirs w else [])"
    "notify_queue w7 = notify_queue w @ (if ok then [] else [''on_plexpydbcorrupt''])"
    "time_now w7 - real_of_int (backup_days w7) * 86400 = cutoff"
    "undeletable w7 = undeletable w"
    "effects (trace w7) = effects (trace w) @ effects_before_sweep scheduler w v"
    using f5 nm f3(13)
    by (simp_all add: w7_def w6 rollback_def emit_def files0_def nested0_def cutoff_def
        files_after_copy_def nested_after_copy_def sweep_cutoff_def effects_before_sweep_def
        db_filename_def ok_def)
  have sw: "swept cutoff d w7 = swept cutoff d w" for d
    using f7(7) by (simp add: swept_def fun_eq_iff)
  have f8: "backup_subdirs w8 = (if backup_dir_exists w then backup_subdirs w else [])"
    "notify_queue w8 = notify_queue w @ (if ok then [] else [''on_plexpydbcorrupt''])"
    "if cleanup \<and> ok
     then backup_files w8 = filter (\<lambda>fm. \<not> swept cutoff (backup_dir w) w fm) files0 \<and>
          nested_files w8 = map (\<lambda>(d, fs). (d, filter (\<lambda>fm. \<not> swept cutoff d w fm) fs)) nested0 \<and>
          effects (trace w8) = effects (trace w) @ effects_before_sweep scheduler w v @
            map Remove (old_paths cutoff (backup_dir w) files0 @
                        concat (map (\<lambda>(d, fs). old_paths cutoff d fs) nested0))
     else backup_files w8 = files0 \<and> nested_files w8 = nested0 \<and>
          effects (trace w8) = effects (trace w) @ effects_before_sweep scheduler w v"
    using f7 sw by (simp_all add: w8_def sweep_result)
  have f9: "backup_subdirs w' = backup_subdirs w8" "notify_queue w' = notify_queue w8"
    "backup_files w' = backup_files w8" "nested_files w' = nested_files w8"
    "effects (trace w') = effects (trace w8)" "listdir w' = listdir w8"
    using fin(2) by (simp_all add: logger_def emit_def listdir_def)
  show ?thesis
    apply (rule exI [of _ res], rule exI [of _ w1], rule exI [of _ v])
    using ic v f8 f9 fin(1) nm
    unfolding files0_def nested0_def cutoff_def ok_def
    by (simp split: if_splits)
qed


text \<open>
  C8. When \<^verbatim>\<open>make_backup\<close> returns, the integrity check gave a first row with some value
  \<open>v\<close>; the call wrote exactly one file, named after the time stamp with the infix
  \<^verbatim>\<open>.corrupt\<close> exactly when \<open>v\<close> is not \<^verbatim>\<open>'ok'\<close>; it put one corruption notification on the
  queue in that case and none otherwise; and it returned whether that name is in the
  listing of the backup directory at the end (after the sweep, when there is one).
\<close>

theorem backup_name_notification_result:
  assumes "make_backup cleanup scheduler w = (Inr b, w')"
  shows "\<exists>res w1 v name paths.
     integrity_check w = (Inr res, w1) \<and> map_of res ''integrity_check'' = Some v \<and>
     name = backup_file_name scheduler (stamp w) (if v = SText ''ok'' then [] else ''.corrupt'') \<and>
     effects (trace w') =
       effects (trace w) @
       (if v = SText ''ok'' then [] else [Notify ''on_plexpydbcorrupt'']) @
       (if backup_dir_exists w then [] else [MakeDirs (backup_dir w)]) @
       [CopyFile (db_filename w) (path_join (backup_dir w) name)] @ map Remove paths \<and>
     (sublist ''.corrupt'' name \<longleftrightarrow> v \<noteq> SText ''ok'') \<and>
     notify_queue w' = notify_queue w @ (if v = SText ''ok'' then [] else [''on_plexpydbcorrupt'']) \<and>
     (b \<longleftrightarrow> name \<in> set (listdir w'))"
proof -
  from make_backup_returns [OF assms] obtain res w1 v where
    a: "integrity_check w = (Inr res, w1)" "map_of res ''integrity_check'' = Some v"
       "notify_queue w' = notify_queue w @ (if v = SText ''ok'' then [] else [''on_plexpydbcorrupt''])"
       "b \<longleftrightarrow> produced_name scheduler w v \<in> set (listdir w')"
    and e: "if cleanup \<and> v = SText ''ok''
      then effects (trace w') =
             effects (trace w) @ effects_before_sweep scheduler w v @
             map Remove (old_paths (sweep_cutoff w) (backup_dir w) (files_after_copy scheduler w v) @
                         concat (map (\<lambda>(d, fs). old_paths (sweep_cutoff w) d fs) (nested_after_copy w)))
      else effects (trace w') = effects (trace w) @ effects_before_sweep scheduler w v"
    by (auto split: if_splits)
  have "\<exists>paths. effects (trace w') =
      effects (trace w) @ effects_before_sweep scheduler w v @ map Remove paths"
  proof (cases "cleanup \<and> v = SText ''ok''")
    case True
    with e have "effects (trace w') = effects (trace w) @ effects_before_sweep scheduler w v @
        map Remove (old_paths (sweep_cutoff w) (backup_dir w) (files_after_copy scheduler w v) @
                    concat (map (\<lambda>(d, fs). old_paths (sweep_cutoff w) d fs) (nested_after_copy w)))"
      by simp
    then show ?thesis by (rule exI)
  next
    case False
    with e have "effects (trace w') = effects (trace w) @ effects_before_sweep scheduler w v @ map Remove []"
      by simp
    then show ?thesis by (rule exI)
  qed
  then obtain paths where
    p: "effects (trace w') = effects (trace w) @ effects_before_sweep scheduler w v @ map Remove paths" ..
  have c: "sublist ''.corrupt'' (produced_name scheduler w v) \<longleftrightarrow> v \<noteq> SText ''ok''"
    using corrupt_infix [of scheduler "stamp w" "v = SText ''ok''"] by (simp add: produced_name_def)
  show ?thesis
    apply (rule exI [of _ res], rule exI [of _ w1], rule exI [of _ v])
    apply (rule exI [of _ "produced_name scheduler w v"], rule exI [of _ paths])
    using a p c by (simp add: effects_before_sweep_def produced_name_def)
qed


theorem backup_name_notification_result_witness:
  "fst (make_backup True False corrupt_world) = Inr True \<and>
   notify_queue (snd (make_backup True False corrupt_world)) = [''on_plexpydbcorrupt''] \<and>
   sublist ''.corrupt'' (backup_file_name False (stamp corrupt_world) ''.corrupt'') \<and>
   backup_file_name False (stamp corrupt_world) ''.corrupt''
     \<in> set (listdir (snd (make_backup True False corrupt_world)))"
proof -
  let ?w' = "snd (make_backup True False corrupt_world)"
  have f: "fst (make_backup True False corrupt_world) = Inr True" by code_simp
  then have mb: "make_backup True False corrupt_world = (Inr True, ?w')"
    by (simp add: prod_eq_iff)
  have ic: "fst (integrity_check corrupt_world) = Inr [(''integrity_check'', SText ''row 3 missing from index idx'')]"
    by code_simp
  from backup_name_notification_result [OF mb] obtain res w1 v name where
    a: "integrity_check corrupt_world = (Inr res, w1)" "map_of res ''integrity_check'' = Some v"
       "name = backup_file_name False (stamp corrupt_world) (if v = SText ''ok'' then [] else ''.corrupt'')"
       "sublist ''.corrupt'' name \<longleftrightarrow> v \<noteq> SText ''ok''"
       "notify_queue ?w' = notify_queue corrupt_world @ (if v = SText ''ok'' then [] else [''on_plexpydbcorrupt''])"
       "True \<longleftrightarrow> name \<in> set (listdir ?w')"
    by blast
  from a(1,2) ic have v: "v = SText ''row 3 missing from index idx''" by auto
  have q: "notify_queue corrupt_world = []" by (simp add: corrupt_world_def blank_world_def)
  from a(3-6) v q f show ?thesis by simp
qed


text \<open>
  C7. When \<^verbatim>\<open>make_backup\<close> returns after a call with cleanup and an integrity check that
  gave \<^verbatim>\<open>'ok'\<close>, then in the backup directory and in every directory below it the files
  left are those present after the copy but the swept ones: a file is removed exactly
  when its name ends in \<^verbatim>\<open>.sched.db\<close>, its modification time is below
  \<^verbatim>\<open>now - BACKUP_DAYS * 86400\<close> and \<^verbatim>\<open>os.remove\<close> does not fail on it; \<^verbatim>\<open>os.remove\<close> is called
  on every old scheduled backup, whether an earlier call failed or not. Without cleanup,
  or when the check did not give \<^verbatim>\<open>'ok'\<close>, the directory stays as the copy left it and
  \<^verbatim>\<open>os.remove\<close> is not called. A file that is not an old scheduled backup is there at
  the end in either case.
\<close>

theorem retention_sweep:
  assumes "make_backup cleanup scheduler w = (Inr b, w')"
  shows "\<exists>res w1 v.
     integrity_check w = (Inr res, w1) \<and> map_of res ''integrity_check'' = Some v \<and>
     (if cleanup \<and> v = SText ''ok''
      then backup_files w' =
             filter (\<lambda>fm. \<not> swept (sweep_cutoff w) (backup_dir w) w fm) (files_after_copy scheduler w v) \<and>
           nested_files w' =
             map (\<lambda>(d, fs). (d, filter (\<lambda>fm. \<not> swept (sweep_cutoff w) d w fm) fs)) (nested_after_copy w) \<and>
           effects (trace w') =
             effects (trace w) @ effects_before_sweep scheduler w v @
             map Remove (old_paths (sweep_cutoff w) (backup_dir w) (files_after_copy scheduler w v) @
                         concat (map (\<lambda>(d, fs). old_paths (sweep_cutoff w) d fs) (nested_after_copy w)))
      else backup_files w' = files_after_copy scheduler w v \<and>
           nested_files w' = nested_after_copy w \<and>
           effects (trace w') = effects (trace w) @ effects_before_sweep scheduler w v) \<and>
     (\<forall>fm\<in>set (files_after_copy scheduler w v).
        \<not> old_backup (sweep_cutoff w) fm \<longrightarrow> fm \<in> set (backup_files w'))"
proof -
  from make_backup_returns [OF assms] obtain res w1 v where
    a: "integrity_check w = (Inr res, w1)" "map_of res ''integrity_check'' = Some v"
    and e: "if cleanup \<and> v = SText ''ok''
      then backup_files w' =
             filter (\<lambda>fm. \<not> swept (sweep_cutoff w) (backup_dir w) w fm) (files_after_copy scheduler w v) \<and>
           nested_files w' =
             map (\<lambda>(d, fs). (d, filter (\<lambda>fm. \<not> swept (sweep_cutoff w) d w fm) fs)) (nested_after_copy w) \<and>
           effects (trace w') =
             effects (trace w) @ effects_before_sweep scheduler w v @
             map Remove (old_paths (sweep_cutoff w) (backup_dir w) (files_after_copy scheduler w v) @
                         concat (map (\<lambda>(d, fs). old_paths (sweep_cutoff w) d fs) (nested_after_copy w)))
      else backup_files w' = files_after_copy scheduler w v \<and>
           nested_files w' = nested_after_copy w \<and>
           effects (trace w') = effects (trace w) @ effects_before_sweep scheduler w v"
    by blast
  have "\<forall>fm\<in>set (files_after_copy scheduler w v).
        \<not> old_backup (sweep_cutoff w) fm \<longrightarrow> fm \<in> set (backup_files w')"
    using e by (auto simp: swept_def split: if_splits)
  with a e show ?thesis by blast
qed


theorem retention_sweep_witness:
  "fst (make_backup True True sweep_world) = Inr True \<and>
   backup_files (snd (make_backup True True sweep_world)) =
     [(''tautulli.backup-19700112133000.sched.db'', 999000),
      (''tautulli.backup-19700101000140.db'', 100),
      (''tautulli.backup-19700101000150.sched.db'', 110),
      (''tautulli.backup-20200309140507.sched.db'', 1000000)] \<and>
   nested_files (snd (make_backup True True sweep_world)) = [(''/backups/older'', [])]"
proof -
  let ?w' = "snd (make_backup True True sweep_world)"
  have f: "fst (make_backup True True sweep_world) = Inr True" by code_simp
  then have mb: "make_backup True True sweep_world = (Inr True, ?w')"
    by (simp add: prod_eq_iff)
  have ic: "fst (integrity_check sweep_world) = Inr [(''integrity_check'', SText ''ok'')]"
    by code_simp
  from retention_sweep [OF mb] obtain res w1 v where
    a: "integrity_check sweep_world = (Inr res, w1)" "map_of res ''integrity_check'' = Some v"
       "if True \<and> v = SText ''ok''
        then backup_files ?w' =
             filter (\<lambda>fm. \<not> swept (sweep_cutoff sweep_world) (backup_dir sweep_world) sweep_world fm)
               (files_after_copy True sweep_world v) \<and>
           nested_files ?w' =
             map (\<lambda>(d, fs). (d, filter (\<lambda>fm. \<not> swept (sweep_cutoff sweep_world) d sweep_world fm) fs))
               (nested_after_copy sweep_world) \<and>
           effects (trace ?w') =
             effects (trace sweep_world) @ effects_before_sweep True sweep_world v @
             map Remove (old_paths (sweep_cutoff sweep_world) (backup_dir sweep_world) (files_after_copy True sweep_world v) @
                         concat (map (\<lambda>(d, fs). old_paths (sweep_cutoff sweep_world) d fs) (nested_after_copy sweep_world)))
        else backup_files ?w' = files_after_copy True sweep_world v \<and>
           nested_files ?w' = nested_after_copy sweep_world \<and>
           effects (trace ?w') = effects (trace sweep_world) @ effects_before_sweep True sweep_world v"
    by blast
  from a(1,2) ic have v: "v = SText ''ok''" by auto
  have 1: "filter (\<lambda>fm. \<not> swept (sweep_cutoff sweep_world) (backup_dir sweep_world) sweep_world fm)
               (files_after_copy True sweep_world (SText ''ok'')) =
     [(''tautulli.backup-19700112133000.sched.db'', 999000),
      (''tautulli.backup-19700101000140.db'', 100),
      (''tautulli.backup-19700101000150.sched.db'', 110),
      (''tautulli.backup-20200309140507.sched.db'', 1000000)]"
    by code_simp
  have 2: "map (\<lambda>(d, fs). (d, filter (\<lambda>fm. \<not> swept (sweep_cutoff sweep_world) d sweep_world fm) fs))
               (nested_after_copy sweep_world) = [(''/backups/older'', [])]"
    by code_simp
  from a(3) v 1 2 f show ?thesis by simp
qed


section \<open>Merge import\<close>

text \<open>C1. The claim: a merge import into a destination whose history has the ids 1 to 3
  (sequence 3), from a source with the history rows 1 and 2 where row 2 refers to row 1,
  leaves five history rows, the new ones numbered 4 and 5 with the reference 4.

  The code does not do that. In the loop over the tables the test
  \<^verbatim>\<open>table == 'session_history'\<close> compares the row of the \<^verbatim>\<open>sqlite_master\<close> query with a
  string, so \<^verbatim>\<open>session_history_columns\<close> stays empty, the statement that takes the kept ids out
  of \<^verbatim>\<open>temp\<close> is skipped, and \<^verbatim>\<open>DELETE FROM session_history WHERE id IN (SELECT new_id FROM temp)\<close>
  removes the two rows that were just imported: the import returns, the history is the one
  the destination had before, and only the sequence (now 5) shows that two rows were
  inserted.\<close>

theorem merge_import_deletes_imported_history:
  "fst (import_tautulli_db (Some ''/import.db'') (Some ''merge'') False import_world) = Inr None \<and>
   map_of (tables (db_file (snd (import_tautulli_db (Some ''/import.db'') (Some ''merge'') False import_world))))
     ''session_history'' =
   Some (history_table [(1, [SInt 1, SInt 7, SText ''a'']), (2, [SInt 2, SInt 8, SText ''b'']),
                        (3, [SInt 3, SInt 7, SText ''c''])]) \<and>
   map_of (sqlite_sequence (db_file (snd (import_tautulli_db (Some ''/import.db'') (Some ''merge'') False import_world))))
     ''session_history'' = Some 5"
  by code_simp

section \<open>What a failing import leaves\<close>







lemma sweep_conn: "conn (sweep c w) = conn w \<and> db_file (sweep c w) = db_file w"
proof -
  obtain fs w1 where 1: "remove_old c (backup_dir w) (backup_files w) w = (fs, w1)"
    by (cases "remove_old c (backup_dir w) (backup_files w) w")
  obtain ds w2 where 2: "sweep_nested c (nested_files w) w1 = (ds, w2)"
    by (cases "sweep_nested c (nested_files w) w1")
  from remove_old_result [OF 1] sweep_nested_result [OF 2] 1 2 show ?thesis
    by (auto simp: sweep_def)
qed


lemma settled_sweep [simp]: "settled (sweep c w) = settled w"
  by (simp add: settled_def sweep_conn)

lemma settled_fs [simp]:
  "settled (makedirs w) = settled w"
  "settled (notify_corrupt w) = settled w"
  by (simp_all add: settled_def makedirs_def notify_corrupt_def emit_def)






section \<open>Overwrite import\<close>

subsection \<open>Copying rows into an emptied table\<close>

lemma copies_Nil [simp]: "copies ts [] = []"
  by (simp add: copies_def)

lemma copies_snoc:
  "copies ts (rs @ [r]) = copies ts rs @ [(int (length rs) + 1, map (cell ts r) (cols ts))]"
  by (simp add: copies_def enumerate_append_eq)

lemma length_copies [simp]: "length (copies ts rs) = length rs"
  by (simp add: copies_def)

lemma in_copies:
  "x \<in> set (copies ts rs) \<Longrightarrow>
     \<exists>r\<in>set rs. snd x = map (cell ts r) (cols ts) \<and> 1 \<le> fst x \<and> fst x \<le> int (length rs)"
proof -
  assume "x \<in> set (copies ts rs)"
  then obtain i r where x: "x = (int i, map (cell ts r) (cols ts))" and ir: "(i, r) \<in> set (enumerate 1 rs)"
    by (auto simp: copies_def)
  from ir have i: "1 \<le> i" "i < length rs + 1" "rs ! (i - 1) = r"
    by (simp_all add: in_set_enumerate_eq)
  then have "r \<in> set rs" by (metis nth_mem less_diff_conv2 add.commute)
  with x i show ?thesis by auto
qed

lemma ids_copies: "fst ` set (copies ts rs) = {1..int (length rs)}"
proof -
  have "fst ` set (copies ts rs) = int ` (fst ` set (enumerate 1 rs))"
    by (simp add: copies_def image_image split_def)
  also have "fst ` set (enumerate 1 rs) = {1..<1 + length rs}"
    by (simp only: set_map [symmetric] map_fst_enumerate set_upt)
  also have "int ` {1..<1 + length rs} = {1..int (length rs)}"
  proof (rule set_eqI)
    fix x
    show "x \<in> int ` {1..<1 + length rs} \<longleftrightarrow> x \<in> {1..int (length rs)}"
    proof
      assume "x \<in> int ` {1..<1 + length rs}"
      then show "x \<in> {1..int (length rs)}" by auto
    next
      assume "x \<in> {1..int (length rs)}"
      then have "nat x \<in> {1..<1 + length rs}" "x = int (nat x)" by auto
      then show "x \<in> int ` {1..<1 + length rs}" by (rule rev_image_eqI)
    qed
  qed
  finally show ?thesis .
qed

lemma fold_max_le: "\<forall>x\<in>set xs. x \<le> (s::int) \<Longrightarrow> fold max xs s = s"
  by (induction xs) (simp_all add: max_absorb2)

lemma next_rowid_copies:
  assumes ids: "fst ` set (rows t) = {1..int k}"
    and seq: "autoinc t \<longrightarrow> seq = (if k = 0 then None else Some (int k))"
  shows "next_rowid t seq = int k + 1"
proof (cases "autoinc t")
  case True
  have "\<forall>x\<in>set (map fst (rows t)). x \<le> (case seq of None \<Rightarrow> 0 | Some s \<Rightarrow> s)"
    using ids seq True by (cases "k = 0") auto
  then have "fold max (map fst (rows t)) (case seq of None \<Rightarrow> 0 | Some s \<Rightarrow> s) =
      (case seq of None \<Rightarrow> 0 | Some s \<Rightarrow> s)"
    by (rule fold_max_le)
  with True seq show ?thesis by (simp add: next_rowid_def)
next
  case False
  show ?thesis
  proof (cases "map fst (rows t)")
    case Nil
    with ids have "{1..int k} = {}" by simp
    then have "k = 0" by simp
    with False Nil show ?thesis by (simp add: next_rowid_def)
  next
    case (Cons i js)
    have "fold max js i = Max (set (i # js))"
      by (rule Max.set_eq_fold [symmetric])
    also have "set (i # js) = {1..int k}"
      using ids Cons by (metis set_map)
    also have "Max {1..int k} = int k"
    proof (rule Max_eqI)
      from \<open>set (i # js) = {1..int k}\<close> have "i \<in> {1..int k}" by auto
      then show "int k \<in> {1..int k}" by auto
    qed auto
    finally show ?thesis using False Cons by (simp add: next_rowid_def)
  qed
qed

lemma map_of_named: "map_of (map (\<lambda>c. (c, f c)) cs) c = (if c \<in> set cs then Some (f c) else None)"
  by (induction cs) auto

lemma cell_copy:
  assumes "cols td = cols ts" "c \<noteq> ''id''"
  shows "cell td (i, map (cell ts r) (cols ts)) c = cell ts r c"
proof (cases "c \<in> set (cols ts)")
  case True
  with assms show ?thesis by (simp add: cell_def [of td] map_of_zip_map)
next
  case False
  then have "map_of (zip (cols ts) (snd r)) c = None"
    by (auto simp: map_of_eq_None_iff dest: set_zip_leftD)
  with False assms show ?thesis by (simp add: cell_def map_of_zip_map)
qed

lemma conflicts_sym: "conflicts t r r' \<Longrightarrow> conflicts t r' r"
  by (auto simp: conflicts_def key_conflict_def sql_eq_def)

lemma conflicts_copy:
  assumes "cols td = cols ts" "uniques td = uniques ts"
    and "conflicts td (i, map (cell ts r) (cols ts)) (j, map (cell ts r') (cols ts))"
  shows "i = j \<or> conflicts ts r r'"
proof (rule disjCI)
  assume ne: "\<not> conflicts ts r r'"
  show "i = j"
  proof (rule ccontr)
    assume "i \<noteq> j"
    with assms(3) obtain U where U: "U \<in> set (uniques td)"
      "key_conflict td (i, map (cell ts r) (cols ts)) (j, map (cell ts r') (cols ts)) U"
      by (auto simp: conflicts_def)
    have "''id'' \<notin> set U"
    proof
      assume "''id'' \<in> set U"
      with U(2) have "sql_eq (SInt i) (SInt j)"
        by (auto simp: key_conflict_def cell_def)
      with \<open>i \<noteq> j\<close> show False by (simp add: sql_eq_def)
    qed
    have "key_conflict ts r r' U"
      unfolding key_conflict_def
    proof
      fix c assume c: "c \<in> set U"
      with \<open>''id'' \<notin> set U\<close> have "c \<noteq> ''id''" by auto
      from U(2) c have "sql_eq (cell td (i, map (cell ts r) (cols ts)) c)
                               (cell td (j, map (cell ts r') (cols ts)) c)"
        by (simp add: key_conflict_def)
      then show "sql_eq (cell ts r c) (cell ts r' c)"
        by (simp only: cell_copy [OF assms(1) \<open>c \<noteq> ''id''\<close>])
    qed
    with U(1) assms(2) ne show False by (auto simp: conflicts_def)
  qed
qed

lemma no_conflicts_append:
  "no_conflicts t (xs @ ys) \<longleftrightarrow>
     no_conflicts t xs \<and> no_conflicts t ys \<and> (\<forall>x\<in>set xs. \<forall>y\<in>set ys. \<not> conflicts t x y)"
  by (induction xs) auto

lemma insert_values_copy:
  assumes t: "map_of (tables db) n = Some t" "cols t = cols ts" "uniques t = uniques ts"
      "rows t = copies ts prev"
    and seq: "autoinc t \<longrightarrow>
        map_of (sqlite_sequence db) n = (if prev = [] then None else Some (int (length prev)))"
    and id: "''id'' \<notin> set (cols ts)"
    and nc: "\<forall>r'\<in>set prev. \<not> conflicts ts r r'"
  shows "\<exists>db'. insert_values n (map (\<lambda>c. (c, cell ts r c)) (cols ts)) db = Inserted db' \<and>
          map_of (tables db') n = Some (t\<lparr>rows := copies ts (prev @ [r])\<rparr>) \<and>
          (autoinc t \<longrightarrow> map_of (sqlite_sequence db') n = Some (int (length prev) + 1)) \<and>
          (\<forall>m. m \<noteq> n \<longrightarrow> map_of (tables db') m = map_of (tables db) m \<and>
               map_of (sqlite_sequence db') m = map_of (sqlite_sequence db) m)"
proof -
  let ?asg = "map (\<lambda>c. (c, cell ts r c)) (cols ts)"
  let ?new = "(int (length prev) + 1, map (cell ts r) (cols ts))"
  have 1: "filter (\<lambda>c. \<not> has_col t c) (map fst ?asg) = []"
    using t(2) by (auto simp: has_col_def filter_empty_conv)
  have 2: "map_of ?asg ''id'' = None"
    using id by (simp add: map_of_named)
  have "fst ` set (rows t) = {1..int (length prev)}"
    using t(4) by (simp add: ids_copies)
  moreover have "autoinc t \<longrightarrow>
      map_of (sqlite_sequence db) n = (if length prev = 0 then None else Some (int (length prev)))"
    using seq by simp
  ultimately have 3: "next_rowid t (map_of (sqlite_sequence db) n) = int (length prev) + 1"
    by (rule next_rowid_copies)
  have 4: "map (\<lambda>c. case map_of ?asg c of Some x \<Rightarrow> x | None \<Rightarrow> SNull) (cols t) =
           map (cell ts r) (cols ts)"
    using t(2) by (simp add: map_of_named)
  have 5: "\<not> (\<exists>r'\<in>set (rows t). conflicts t ?new r')"
  proof
    assume "\<exists>r'\<in>set (rows t). conflicts t ?new r'"
    then obtain r' where r': "r' \<in> set (copies ts prev)" "conflicts t ?new r'"
      using t(4) by auto
    from in_copies [OF r'(1)] obtain r0 where r0: "r0 \<in> set prev"
      "snd r' = map (cell ts r0) (cols ts)" "fst r' \<le> int (length prev)" by blast
    from r'(2) r0(2) have "conflicts t ?new (fst r', map (cell ts r0) (cols ts))"
      by (metis prod.collapse)
    from conflicts_copy [OF t(2) t(3) this] r0(3) have "conflicts ts r r0" by auto
    with nc r0(1) show False by blast
  qed
  have 6: "max (int (length prev) + 1)
             (case map_of (sqlite_sequence db) n of None \<Rightarrow> 0 | Some s \<Rightarrow> s) = int (length prev) + 1"
    if "autoinc t"
    using seq that by (cases "prev = []") auto
  show ?thesis
    unfolding insert_values_def
    using t(1) 1 2 3 4 5 6
    by (simp add: Let_def put_table_def update_conv' copies_snoc t(4) del: map_map)
qed

lemma insert_all_copies:
  assumes "map_of (tables db) n = Some t" "cols t = cols ts" "uniques t = uniques ts"
      "rows t = copies ts prev"
    and "autoinc t \<longrightarrow>
        map_of (sqlite_sequence db) n = (if prev = [] then None else Some (int (length prev)))"
    and "''id'' \<notin> set (cols ts)"
    and "no_conflicts ts (prev @ todo)"
  shows "\<exists>db'. insert_all True n (map (\<lambda>r. map (\<lambda>c. (c, cell ts r c)) (cols ts)) todo) db k =
               Inr (db', k + length todo) \<and>
          map_of (tables db') n = Some (t\<lparr>rows := copies ts (prev @ todo)\<rparr>) \<and>
          (autoinc t \<longrightarrow> map_of (sqlite_sequence db') n =
             (if prev @ todo = [] then None else Some (int (length (prev @ todo))))) \<and>
          (\<forall>m. m \<noteq> n \<longrightarrow> map_of (tables db') m = map_of (tables db) m \<and>
               map_of (sqlite_sequence db') m = map_of (sqlite_sequence db) m)"
  using assms
proof (induction todo arbitrary: prev db k t)
  case Nil
  then show ?case by simp
next
  case (Cons r todo)
  from Cons.prems(7) have nc: "\<forall>r'\<in>set prev. \<not> conflicts ts r r'"
    and nc': "no_conflicts ts ((prev @ [r]) @ todo)"
    by (auto simp: no_conflicts_append dest: conflicts_sym)
  from insert_values_copy [OF Cons.prems(1-6) nc]
  obtain db1 where db1:
    "insert_values n (map (\<lambda>c. (c, cell ts r c)) (cols ts)) db = Inserted db1"
    "map_of (tables db1) n = Some (t\<lparr>rows := copies ts (prev @ [r])\<rparr>)"
    "autoinc t \<longrightarrow> map_of (sqlite_sequence db1) n = Some (int (length prev) + 1)"
    "\<forall>m. m \<noteq> n \<longrightarrow> map_of (tables db1) m = map_of (tables db) m \<and>
         map_of (sqlite_sequence db1) m = map_of (sqlite_sequence db) m"
    by blast
  let ?t1 = "t\<lparr>rows := copies ts (prev @ [r])\<rparr>"
  have seq1: "autoinc ?t1 \<longrightarrow> map_of (sqlite_sequence db1) n =
      (if prev @ [r] = [] then None else Some (int (length (prev @ [r]))))"
    using db1(3) by simp
  from Cons.IH [of db1 ?t1 "prev @ [r]" "Suc k", OF db1(2) _ _ _ seq1 Cons.prems(6) nc']
    Cons.prems(2,3)
  obtain db' where db':
    "insert_all True n (map (\<lambda>r. map (\<lambda>c. (c, cell ts r c)) (cols ts)) todo) db1 (Suc k) =
       Inr (db', Suc k + length todo)"
    "map_of (tables db') n = Some (?t1\<lparr>rows := copies ts ((prev @ [r]) @ todo)\<rparr>)"
    "autoinc ?t1 \<longrightarrow> map_of (sqlite_sequence db') n =
       (if (prev @ [r]) @ todo = [] then None else Some (int (length ((prev @ [r]) @ todo))))"
    "\<forall>m. m \<noteq> n \<longrightarrow> map_of (tables db') m = map_of (tables db1) m \<and>
         map_of (sqlite_sequence db') m = map_of (sqlite_sequence db1) m"
    by auto
  show ?case
  proof (intro exI [of _ db'] conjI)
    show "insert_all True n (map (\<lambda>r. map (\<lambda>c. (c, cell ts r c)) (cols ts)) (r # todo)) db k =
       Inr (db', k + length (r # todo))"
      using db1(1) db'(1) by simp
    show "map_of (tables db') n = Some (t\<lparr>rows := copies ts (prev @ r # todo)\<rparr>)"
      using db'(2) by simp
    show "autoinc t \<longrightarrow> map_of (sqlite_sequence db') n =
       (if prev @ r # todo = [] then None else Some (int (length (prev @ r # todo))))"
      using db'(3) by simp
    show "\<forall>m. m \<noteq> n \<longrightarrow> map_of (tables db') m = map_of (tables db) m \<and>
         map_of (sqlite_sequence db') m = map_of (sqlite_sequence db) m"
      using db'(4) db1(4) by simp
  qed
qed

lemma insert_values_other:
  assumes "insert_values m a db = Inserted db'" "n \<noteq> m"
  shows "map_of (tables db') n = map_of (tables db) n \<and>
         map_of (sqlite_sequence db') n = map_of (sqlite_sequence db) n"
  using assms
  by (auto simp: insert_values_def Let_def put_table_def update_conv'
      split: option.splits list.splits sqlval.splits if_splits)

lemma insert_all_other:
  assumes "insert_all ign m as db k = Inr (db', k')" "n \<noteq> m"
  shows "map_of (tables db') n = map_of (tables db) n \<and>
         map_of (sqlite_sequence db') n = map_of (sqlite_sequence db) n"
  using assms
proof (induction as arbitrary: db k)
  case Nil
  then show ?case by simp
next
  case (Cons a as)
  show ?case
  proof (cases "insert_values m a db")
    case (Inserted db1)
    with Cons.prems have "insert_all ign m as db1 (Suc k) = Inr (db', k')" by simp
    from Cons.IH [OF this Cons.prems(2)] insert_values_other [OF Inserted Cons.prems(2)]
    show ?thesis by simp
  next
    case Conflict
    with Cons.prems have "insert_all ign m as db k = Inr (db', k')" by (simp split: if_splits)
    from Cons.IH [OF this Cons.prems(2)] show ?thesis .
  next
    case (Rejected e)
    with Cons.prems show ?thesis by simp
  qed
qed

end
